theory Spec2Isabelle
  imports Main "HOL-Library.Sublist"
begin

section \<open>Backup management for a Minecraft server: the model\<close>

text \<open>
  This theory embeds \<^verbatim>\<open>manage-backups/manage_backups.py\<close>. The script reads the
  clock, lists and stats files, unlinks files, starts external programs and logs. All
  of that is made explicit: every function that touches the outside takes a
  \<open>world\<close> and returns a result together with the world it leaves behind, also when
  it raises (an exception does not undo what was done before it).
\<close>

subsection \<open>Time\<close>

text \<open>
  A naive \<^verbatim>\<open>datetime.datetime\<close> is the number of microseconds since
  0001-01-01 00:00:00, and a \<^verbatim>\<open>datetime.timedelta\<close> is a number of microseconds;
  both are exact integers in Python. The float \<^verbatim>\<open>st_mtime\<close> is not modelled: a
  file carries the datetime that \<^verbatim>\<open>datetime.fromtimestamp\<close> makes of it.
\<close>

type_synonym datetime = int
type_synonym timedelta = int

text \<open>\<^verbatim>\<open>datetime.timedelta(weeks=w, days=d, minutes=m)\<close>, the keywords the script uses.\<close>

definition timedelta :: "int \<Rightarrow> int \<Rightarrow> int \<Rightarrow> timedelta" where
  "timedelta weeks days minutes = ((weeks * 7 + days) * 86400 + minutes * 60) * 1000000"

text \<open>\<^verbatim>\<open>datetime.max\<close> is 9999-12-31 23:59:59.999999, the last microsecond of day 3652059.\<close>

definition datetime_max :: datetime where
  "datetime_max = 3652059 * 86400 * 1000000 - 1"

subsection \<open>Errors, the file system, external programs\<close>

type_synonym fspath = "string list"

datatype error =
    FileNotFoundError
  | NotADirectoryError
  | PermissionError
  | IsADirectoryError
  | OverflowError
  | CalledProcessError int "string list"

text \<open>
  A path is the list of its components below the root. A node is a regular file with
  its modification time, or a directory with its modification time and whether it may
  be listed. Symbolic links and the permissions needed to remove an entry are outside
  the model.
\<close>

datatype node = File datetime | Dir datetime bool

fun node_mtime :: "node \<Rightarrow> datetime" where
  "node_mtime (File m) = m"
| "node_mtime (Dir m r) = m"

type_synonym filesystem = "(fspath \<times> node) list"

text \<open>What \<^verbatim>\<open>subprocess.run\<close> meets: the program ran and exited, or could not be started.\<close>

datatype proc_result = Exited int | NoSuchProgram

datatype event =
    Now datetime
  | Stat fspath
  | Unlink fspath
  | Run "string list" proc_result
  | LogInfo string

text \<open>
  The world: the file system, the clock and the external programs (both may answer
  differently every time, so they depend on everything that happened so far), and the
  trace of what the script did, oldest event first.
\<close>

record world =
  fs :: filesystem
  clock :: "event list \<Rightarrow> datetime"
  proc :: "event list \<Rightarrow> string list \<Rightarrow> filesystem \<Rightarrow> proc_result \<times> filesystem"
  trace :: "event list"

definition emit :: "event \<Rightarrow> world \<Rightarrow> world" where
  "emit e w = w\<lparr>trace := trace w @ [e]\<rparr>"

definition events_since :: "world \<Rightarrow> world \<Rightarrow> event list" where
  "events_since w w' = drop (length (trace w)) (trace w')"

text \<open>\<^verbatim>\<open>datetime.datetime.now()\<close>\<close>

definition datetime_now :: "world \<Rightarrow> datetime \<times> world" where
  "datetime_now w = (clock w (trace w), emit (Now (clock w (trace w))) w)"

text \<open>\<^verbatim>\<open>dt - delta\<close>: Python raises OverflowError when the result leaves the datetime range.\<close>

definition datetime_sub :: "datetime \<Rightarrow> timedelta \<Rightarrow> error + datetime" where
  "datetime_sub dt delta =
     (if dt - delta < 0 \<or> datetime_max < dt - delta then Inl OverflowError
      else Inr (dt - delta))"

text \<open>\<^verbatim>\<open>logging.info(fmt, ...)\<close>: the format string is recorded, the arguments are not.\<close>

definition logging_info :: "string \<Rightarrow> world \<Rightarrow> world" where
  "logging_info msg w = emit (LogInfo msg) w"

text \<open>\<^verbatim>\<open>subprocess.run(cmd, check=True)\<close>\<close>

definition subprocess_run :: "string list \<Rightarrow> world \<Rightarrow> (error + unit) \<times> world" where
  "subprocess_run cmd w =
     (case proc w (trace w) cmd (fs w) of
        (r, fs') \<Rightarrow>
          (let w' = emit (Run cmd r) (w\<lparr>fs := fs'\<rparr>) in
           case r of
             NoSuchProgram \<Rightarrow> (Inl FileNotFoundError, w')
           | Exited rc \<Rightarrow>
               if rc \<noteq> 0 then (Inl (CalledProcessError rc cmd), w') else (Inr (), w')))"

text \<open>\<^verbatim>\<open>Path.unlink()\<close>\<close>

definition unlink :: "fspath \<Rightarrow> world \<Rightarrow> (error + unit) \<times> world" where
  "unlink p w =
     (let w' = emit (Unlink p) w in
      case map_of (fs w) p of
        None \<Rightarrow> (Inl FileNotFoundError, w')
      | Some (Dir m r) \<Rightarrow> (Inl IsADirectoryError, w')
      | Some (File m) \<Rightarrow> (Inr (), w'\<lparr>fs := filter (\<lambda>e. fst e \<noteq> p) (fs w)\<rparr>))"

subsection \<open>The standard library's glob\<close>

text \<open>
  \<^verbatim>\<open>glob.glob("**/*.tar.gz", root_dir=root_dir, recursive=True)\<close>, after CPython's
  \<^verbatim>\<open>glob.py\<close>. \<^verbatim>\<open>os.scandir\<close> raises on a directory that is missing, is not a
  directory or may not be listed; \<^verbatim>\<open>glob._iterdir\<close> catches every OSError and
  yields nothing then.
\<close>

definition scandir :: "filesystem \<Rightarrow> fspath \<Rightarrow> error + string list" where
  "scandir fsys d =
     (case map_of fsys d of
        None \<Rightarrow> Inl FileNotFoundError
      | Some (File m) \<Rightarrow> Inl NotADirectoryError
      | Some (Dir m r) \<Rightarrow>
          if r then Inr (map last (filter (\<lambda>p. p \<noteq> [] \<and> butlast p = d) (map fst fsys)))
          else Inl PermissionError)"

definition isdir :: "filesystem \<Rightarrow> fspath \<Rightarrow> bool" where
  "isdir fsys p = (case map_of fsys p of Some (Dir m r) \<Rightarrow> True | _ \<Rightarrow> False)"

definition iterdir :: "filesystem \<Rightarrow> fspath \<Rightarrow> bool \<Rightarrow> string list" where
  "iterdir fsys d dironly =
     (case scandir fsys d of
        Inl e \<Rightarrow> []
      | Inr names \<Rightarrow> filter (\<lambda>x. if dironly then isdir fsys (d @ [x]) else True) names)"

definition ishidden :: "string \<Rightarrow> bool" where
  "ishidden name = (case name of [] \<Rightarrow> False | c # cs \<Rightarrow> c = CHR ''.'')"

text \<open>\<^verbatim>\<open>fnmatch\<close> against \<^verbatim>\<open>*.tar.gz\<close>: the name ends in \<^verbatim>\<open>.tar.gz\<close>.\<close>

definition fnmatch_tar_gz :: "string \<Rightarrow> bool" where
  "fnmatch_tar_gz name = suffix ''.tar.gz'' name"

text \<open>
  \<^verbatim>\<open>glob._rlistdir(d)\<close> yields every directory below \<open>d\<close> that is reached through
  directories that are listed and not hidden; \<open>rlistdir fsys d rel\<close> says that
  the relative path \<open>rel\<close> is among them.
\<close>

fun rlistdir :: "filesystem \<Rightarrow> fspath \<Rightarrow> string list \<Rightarrow> bool" where
  "rlistdir fsys d [] = False"
| "rlistdir fsys d [x] = (x \<in> set (iterdir fsys d True) \<and> \<not> ishidden x)"
| "rlistdir fsys d (x # y # ys) =
     (x \<in> set (iterdir fsys d True) \<and> \<not> ishidden x \<and> rlistdir fsys (d @ [x]) (y # ys))"

text \<open>\<^verbatim>\<open>glob._glob2\<close> for \<^verbatim>\<open>**\<close>: the root itself when it is a directory, and what is below.\<close>

definition glob2 :: "filesystem \<Rightarrow> fspath \<Rightarrow> string list \<Rightarrow> bool" where
  "glob2 fsys root rel = (if rel = [] then isdir fsys root else rlistdir fsys root rel)"

text \<open>\<^verbatim>\<open>glob._glob1\<close> for \<^verbatim>\<open>*.tar.gz\<close>: the names of a directory that are not hidden and match.\<close>

definition glob1 :: "filesystem \<Rightarrow> fspath \<Rightarrow> string list" where
  "glob1 fsys d = filter fnmatch_tar_gz (filter (\<lambda>x. \<not> ishidden x) (iterdir fsys d False))"

definition glob_match :: "filesystem \<Rightarrow> fspath \<Rightarrow> string list \<Rightarrow> bool" where
  "glob_match fsys root rel =
     (rel \<noteq> [] \<and> glob2 fsys root (butlast rel) \<and> last rel \<in> set (glob1 fsys (root @ butlast rel)))"

text \<open>The matches, as paths relative to \<open>root\<close>, in the order in which the file system holds them.\<close>

definition glob :: "filesystem \<Rightarrow> fspath \<Rightarrow> string list list" where
  "glob fsys root =
     filter (glob_match fsys root)
       (map (drop (length root)) (filter (\<lambda>p. prefix root p) (map fst fsys)))"

subsection \<open>The script\<close>

definition BACKUPS_DIR :: fspath where
  "BACKUPS_DIR = [''srv'', ''minecraft'', ''backups'']"

definition BACKUPS_DAILY :: fspath where
  "BACKUPS_DAILY = BACKUPS_DIR @ [''daily'']"

definition BACKUPS_WEEKLY :: fspath where
  "BACKUPS_WEEKLY = BACKUPS_DIR @ [''weekly'']"

definition BACKUPS_MONTHLY :: fspath where
  "BACKUPS_MONTHLY = BACKUPS_DIR @ [''monthly'']"

datatype BackupFile = BackupFile (path: fspath)

definition get_mtime :: "BackupFile \<Rightarrow> world \<Rightarrow> (error + datetime) \<times> world" where
  "get_mtime b w =
     (let w' = emit (Stat (path b)) w in
      case map_of (fs w) (path b) of
        None \<Rightarrow> (Inl FileNotFoundError, w')
      | Some n \<Rightarrow> (Inr (node_mtime n), w'))"

definition is_older_than_dt :: "BackupFile \<Rightarrow> datetime \<Rightarrow> world \<Rightarrow> (error + bool) \<times> world" where
  "is_older_than_dt b dt w =
     (case get_mtime b w of
        (Inl e, w') \<Rightarrow> (Inl e, w')
      | (Inr m, w') \<Rightarrow> (Inr (m < dt), w'))"

definition is_older_than_delta :: "BackupFile \<Rightarrow> timedelta \<Rightarrow> world \<Rightarrow> (error + bool) \<times> world" where
  "is_older_than_delta b delta w =
     (case datetime_now w of
        (now, w1) \<Rightarrow>
          (case datetime_sub now \<bar>delta\<bar> of
             Inl e \<Rightarrow> (Inl e, w1)
           | Inr dt \<Rightarrow> is_older_than_dt b dt w1))"

definition get_backup_files :: "filesystem \<Rightarrow> fspath \<Rightarrow> BackupFile list" where
  "get_backup_files fsys root_dir =
     (let backup_names = glob fsys root_dir;
          backup_paths = map (\<lambda>filename. root_dir @ filename) backup_names
      in map BackupFile backup_paths)"

text \<open>
  \<^verbatim>\<open>all(backup.is_older_than_delta(max_age) for backup in backups)\<close>: the generator
  is consumed up to the first record that is not older.
\<close>

fun all_is_older_than_delta :: "timedelta \<Rightarrow> BackupFile list \<Rightarrow> world \<Rightarrow> (error + bool) \<times> world" where
  "all_is_older_than_delta max_age [] w = (Inr True, w)"
| "all_is_older_than_delta max_age (b # bs) w =
     (case is_older_than_delta b max_age w of
        (Inl e, w') \<Rightarrow> (Inl e, w')
      | (Inr False, w') \<Rightarrow> (Inr False, w')
      | (Inr True, w') \<Rightarrow> all_is_older_than_delta max_age bs w')"

definition needs_daily_backup :: "world \<Rightarrow> (error + bool) \<times> world" where
  "needs_daily_backup w =
     (let daily_backups = get_backup_files (fs w) BACKUPS_DAILY;
          max_age = timedelta 0 1 (- 30)
      in all_is_older_than_delta max_age daily_backups w)"

definition needs_weekly_backup :: "world \<Rightarrow> (error + bool) \<times> world" where
  "needs_weekly_backup w =
     (let weekly_backups = get_backup_files (fs w) BACKUPS_WEEKLY;
          max_age = timedelta 1 0 (- 30)
      in all_is_older_than_delta max_age weekly_backups w)"

definition needs_monthly_backup :: "world \<Rightarrow> (error + bool) \<times> world" where
  "needs_monthly_backup w =
     (let monthly_backups = get_backup_files (fs w) BACKUPS_MONTHLY;
          max_age = timedelta 0 30 (- 30)
      in all_is_older_than_delta max_age monthly_backups w)"

subsection \<open>The name of a new archive\<close>

text \<open>
  \<^verbatim>\<open>strftime("backup-%Y%m%d-%H%M%S.tar.gz")\<close> needs the calendar date of a datetime.
  \<open>ord2ymd\<close> is CPython's \<^verbatim>\<open>_ord2ymd\<close> on the number of days since 0001-01-01
  (the proleptic Gregorian ordinal minus one).
\<close>

definition days_before_month :: "nat \<Rightarrow> nat" where
  "days_before_month month = [0, 0, 31, 59, 90, 120, 151, 181, 212, 243, 273, 304, 334] ! month"

definition days_in_month :: "nat \<Rightarrow> nat" where
  "days_in_month month = [0, 31, 28, 31, 30, 31, 30, 31, 31, 30, 31, 30, 31] ! month"

definition ord2ymd :: "nat \<Rightarrow> nat \<times> nat \<times> nat" where
  "ord2ymd n0 =
     (let n400 = n0 div 146097; na = n0 mod 146097;
          n100 = na div 36524; nb = na mod 36524;
          n4 = nb div 1461; nc = nb mod 1461;
          n1 = nc div 365; n = nc mod 365;
          year = n400 * 400 + 1 + n100 * 100 + n4 * 4 + n1
      in if n1 = 4 \<or> n100 = 4 then (year - 1, 12, 31)
         else
           (let leapyear = (n1 = 3 \<and> (n4 \<noteq> 24 \<or> n100 = 3));
                month = (n + 50) div 32;
                preceding = days_before_month month + (if 2 < month \<and> leapyear then 1 else 0)
            in if n < preceding
               then (year, month - 1,
                     n - (preceding - (days_in_month (month - 1)
                                       + (if month - 1 = 2 \<and> leapyear then 1 else 0))) + 1)
               else (year, month, n - preceding + 1)))"

definition digit :: "nat \<Rightarrow> char" where
  "digit d = ''0123456789'' ! (d mod 10)"

definition pad2 :: "nat \<Rightarrow> string" where
  "pad2 n = [digit (n div 10), digit n]"

definition pad4 :: "nat \<Rightarrow> string" where
  "pad4 n = [digit (n div 1000), digit (n div 100), digit (n div 10), digit n]"

text \<open>
  The format \<^verbatim>\<open>%Y%m%d-%H%M%S\<close> of a datetime within the range of the type (year
  1 to 9999; the clock of a running system reads four-digit years).
\<close>

definition strftime_stamp :: "datetime \<Rightarrow> string" where
  "strftime_stamp dt =
     (let days = nat (dt div 86400000000);
          secs = nat ((dt div 1000000) mod 86400)
      in case ord2ymd days of
           (y, m, d) \<Rightarrow>
             pad4 y @ pad2 m @ pad2 d @ ''-''
             @ pad2 (secs div 3600) @ pad2 (secs div 60 mod 60) @ pad2 (secs mod 60))"

definition get_new_backup_filename :: "world \<Rightarrow> string \<times> world" where
  "get_new_backup_filename w =
     (case datetime_now w of
        (now, w') \<Rightarrow> (''backup-'' @ strftime_stamp now @ ''.tar.gz'', w'))"

subsection \<open>Stopping and starting the server, creating an archive\<close>

definition stop_cmd :: "string list" where
  "stop_cmd = [''sudo'', ''/usr/bin/systemctl'', ''stop'', ''minecraft-server.service'']"

definition start_cmd :: "string list" where
  "start_cmd = [''sudo'', ''/usr/bin/systemctl'', ''start'', ''minecraft-server.service'']"

definition stop_minecraft_server :: "world \<Rightarrow> (error + unit) \<times> world" where
  "stop_minecraft_server w =
     subprocess_run stop_cmd (logging_info ''Stopping the Minecraft server.'' w)"

definition start_minecraft_server :: "world \<Rightarrow> (error + unit) \<times> world" where
  "start_minecraft_server w =
     subprocess_run start_cmd (logging_info ''Starting the Minecraft server.'' w)"

text \<open>\<^verbatim>\<open>str(path)\<close> of an absolute path.\<close>

definition str_path :: "fspath \<Rightarrow> string" where
  "str_path p = concat (map (\<lambda>c. ''/'' @ c) p)"

definition tar_cmd :: "fspath \<Rightarrow> string list" where
  "tar_cmd backup_path = [''tar'', ''-czhf'', str_path backup_path, ''/srv/minecraft/current'']"

definition create_backup :: "fspath \<Rightarrow> world \<Rightarrow> (error + BackupFile) \<times> world" where
  "create_backup parent_dir w =
     (case stop_minecraft_server w of
        (Inl e, w1) \<Rightarrow> (Inl e, w1)
      | (Inr u, w1) \<Rightarrow>
          (case get_new_backup_filename w1 of
             (name, w2) \<Rightarrow>
               (let backup_path = parent_dir @ [name];
                    w3 = logging_info ''Creating backup file: %s'' w2
                in case subprocess_run (tar_cmd backup_path) w3 of
                     (Inl e, w4) \<Rightarrow> (Inl e, w4)
                   | (Inr u, w4) \<Rightarrow>
                       (case start_minecraft_server w4 of
                          (Inl e, w5) \<Rightarrow> (Inl e, w5)
                        | (Inr u, w5) \<Rightarrow> (Inr (BackupFile backup_path), w5)))))"

text \<open>One tier of \<^verbatim>\<open>create_new_backups\<close>: the test, then the archive or the log line.\<close>

definition create_if_needed ::
  "(world \<Rightarrow> (error + bool) \<times> world) \<Rightarrow> fspath \<Rightarrow> string \<Rightarrow> world \<Rightarrow> (error + unit) \<times> world" where
  "create_if_needed needs parent_dir msg w =
     (case needs w of
        (Inl e, w1) \<Rightarrow> (Inl e, w1)
      | (Inr True, w1) \<Rightarrow>
          (case create_backup parent_dir w1 of
             (Inl e, w2) \<Rightarrow> (Inl e, w2)
           | (Inr b, w2) \<Rightarrow> (Inr (), w2))
      | (Inr False, w1) \<Rightarrow> (Inr (), logging_info msg w1))"

definition create_new_backups :: "world \<Rightarrow> (error + unit) \<times> world" where
  "create_new_backups w =
     (case create_if_needed needs_daily_backup BACKUPS_DAILY ''No daily backup needed.'' w of
        (Inl e, w1) \<Rightarrow> (Inl e, w1)
      | (Inr u, w1) \<Rightarrow>
          (case create_if_needed needs_weekly_backup BACKUPS_WEEKLY
                  ''No weekly backup needed.'' w1 of
             (Inl e, w2) \<Rightarrow> (Inl e, w2)
           | (Inr u, w2) \<Rightarrow>
               create_if_needed needs_monthly_backup BACKUPS_MONTHLY
                 ''No monthly backup needed.'' w2))"

subsection \<open>Deleting old archives\<close>

text \<open>
  The loop of \<^verbatim>\<open>delete_backups_older_than_delta\<close> over the records that were listed
  before it started. The arguments of \<^verbatim>\<open>logging.info\<close> are evaluated before the
  call, so \<^verbatim>\<open>backup_file.get_mtime()\<close> stats the file again there.
\<close>

fun delete_loop :: "timedelta \<Rightarrow> BackupFile list \<Rightarrow> world \<Rightarrow> (error + unit) \<times> world" where
  "delete_loop delta [] w = (Inr (), w)"
| "delete_loop delta (backup_file # rest) w =
     (case is_older_than_delta backup_file delta w of
        (Inl e, w1) \<Rightarrow> (Inl e, w1)
      | (Inr False, w1) \<Rightarrow> delete_loop delta rest w1
      | (Inr True, w1) \<Rightarrow>
          (case get_mtime backup_file w1 of
             (Inl e, w2) \<Rightarrow> (Inl e, w2)
           | (Inr m, w2) \<Rightarrow>
               (case unlink (path backup_file)
                       (logging_info ''Deleting old backup %s (mtime %s is older than %s)'' w2) of
                  (Inl e, w3) \<Rightarrow> (Inl e, w3)
                | (Inr u, w3) \<Rightarrow> delete_loop delta rest w3)))"

definition delete_backups_older_than_delta ::
  "fspath \<Rightarrow> timedelta \<Rightarrow> world \<Rightarrow> (error + unit) \<times> world" where
  "delete_backups_older_than_delta parent_dir delta w =
     delete_loop delta (get_backup_files (fs w) parent_dir) w"


section \<open>Notions used to state the properties\<close>

text \<open>The modification time a stat of the path would report, if the path exists.\<close>

definition last_modified_time :: "filesystem \<Rightarrow> fspath \<Rightarrow> datetime option" where
  "last_modified_time fsys p = map_option node_mtime (map_of fsys p)"

text \<open>Durations, in microseconds.\<close>

definition hours :: "int \<Rightarrow> timedelta" where
  "hours n = n * 3600 * 1000000"

definition minutes :: "int \<Rightarrow> timedelta" where
  "minutes n = n * 60 * 1000000"

definition days :: "int \<Rightarrow> timedelta" where
  "days n = n * 86400 * 1000000"

text \<open>
  Every archive that the scanner finds below \<open>root\<close> was last modified before
  \<open>now - age\<close>: the spec's "every record in the set is older than the given age".
\<close>

definition every_record_older :: "filesystem \<Rightarrow> fspath \<Rightarrow> datetime \<Rightarrow> timedelta \<Rightarrow> bool" where
  "every_record_older fsys root now age =
     list_all (\<lambda>b. case last_modified_time fsys (path b) of
                        None \<Rightarrow> False
                      | Some m \<Rightarrow> m < now - age)
       (get_backup_files fsys root)"

text \<open>The commands that were started, in order, among a list of events.\<close>

fun commands_run :: "event list \<Rightarrow> string list list" where
  "commands_run [] = []"
| "commands_run (Run cmd r # es) = cmd # commands_run es"
| "commands_run (e # es) = commands_run es"

text \<open>How often a path was stat'ed among a list of events.\<close>

definition stat_count :: "event list \<Rightarrow> fspath \<Rightarrow> nat" where
  "stat_count es p = count_list es (Stat p)"


subsection \<open>Concrete worlds\<close>

text \<open>2023-01-01 12:00:00, day 738520 since 0001-01-01.\<close>

definition noon :: datetime where
  "noon = (738520 * 86400 + 12 * 3600) * 1000000"

definition old_archive :: fspath where
  "old_archive = BACKUPS_DAILY @ [''backup-20221227-120000.tar.gz'']"

definition new_archive :: fspath where
  "new_archive = BACKUPS_DAILY @ [''backup-20230101-110000.tar.gz'']"

text \<open>
  A daily tier with an archive of five days ago, one of an hour ago and a log file of
  ten days ago; the other tiers are empty directories.
\<close>

definition demo_fs :: filesystem where
  "demo_fs =
     [(BACKUPS_DAILY, Dir (noon - hours 1) True),
      (old_archive, File (noon - hours 120)),
      (new_archive, File (noon - hours 1)),
      (BACKUPS_DAILY @ [''notes.log''], File (noon - hours 240)),
      (BACKUPS_WEEKLY, Dir (noon - hours 240) True),
      (BACKUPS_MONTHLY, Dir (noon - hours 240) True)]"

text \<open>The clock stands at noon and every external program succeeds.\<close>

definition demo_world :: world where
  "demo_world =
     \<lparr>fs = demo_fs, clock = (\<lambda>h. noon), proc = (\<lambda>h cmd fsys. (Exited 0, fsys)), trace = []\<rparr>"

text \<open>The same, but \<^verbatim>\<open>tar\<close> exits with status 2.\<close>

definition tar_fails_world :: world where
  "tar_fails_world =
     demo_world\<lparr>proc := (\<lambda>h cmd fsys. if hd cmd = ''tar'' then (Exited 2, fsys) else (Exited 0, fsys))\<rparr>"

text \<open>The same, but stopping the server exits with status 1.\<close>

definition stop_fails_world :: world where
  "stop_fails_world =
     demo_world\<lparr>proc := (\<lambda>h cmd fsys. if cmd = stop_cmd then (Exited 1, fsys) else (Exited 0, fsys))\<rparr>"

text \<open>A daily tier whose only archive is 23 hours 40 minutes old.\<close>

definition recent_archive :: fspath where
  "recent_archive = BACKUPS_DAILY @ [''backup-20221231-122000.tar.gz'']"

definition recent_world :: world where
  "recent_world =
     demo_world\<lparr>fs := [(BACKUPS_DAILY, Dir (noon - hours 1) True),
                       (recent_archive, File (noon - (hours 23 + minutes 40)))]\<rparr>"

text \<open>A file system without the daily tier's directory, and one where it may not be listed.\<close>

definition missing_fs :: filesystem where
  "missing_fs = [(BACKUPS_DIR, Dir (noon - hours 240) True)]"

definition unreadable_fs :: filesystem where
  "unreadable_fs =
     [(BACKUPS_DAILY, Dir (noon - hours 1) False),
      (old_archive, File (noon - hours 120))]"

definition empty_fs :: filesystem where
  "empty_fs = [(BACKUPS_DAILY, Dir (noon - hours 1) True)]"

text \<open>
  Archives in all three tiers: the weekly tier holds one of 22 days ago and one of
  exactly 21 days ago, the monthly tier one of 61 days ago and one of 31 days ago.
\<close>

definition weekly_old :: fspath where
  "weekly_old = BACKUPS_WEEKLY @ [''backup-20221210-120000.tar.gz'']"

definition weekly_edge :: fspath where
  "weekly_edge = BACKUPS_WEEKLY @ [''backup-20221211-120000.tar.gz'']"

definition monthly_old :: fspath where
  "monthly_old = BACKUPS_MONTHLY @ [''backup-20221101-120000.tar.gz'']"

definition monthly_new :: fspath where
  "monthly_new = BACKUPS_MONTHLY @ [''backup-20221201-120000.tar.gz'']"

definition tiers_fs :: filesystem where
  "tiers_fs =
     [(BACKUPS_DAILY, Dir (noon - hours 1) True),
      (old_archive, File (noon - hours 120)),
      (new_archive, File (noon - hours 1)),
      (BACKUPS_WEEKLY, Dir (noon - days 21) True),
      (weekly_old, File (noon - days 22)),
      (weekly_edge, File (noon - days 21)),
      (BACKUPS_MONTHLY, Dir (noon - days 31) True),
      (monthly_old, File (noon - days 61)),
      (monthly_new, File (noon - days 31))]"

definition tiers_world :: world where
  "tiers_world = demo_world\<lparr>fs := tiers_fs\<rparr>"




section \<open>Basic facts\<close>

lemma emit_fields [simp]:
  "fs (emit e w) = fs w" "clock (emit e w) = clock w" "proc (emit e w) = proc w"
  "trace (emit e w) = trace w @ [e]"
  by (simp_all add: emit_def)

lemmas path_defs = BACKUPS_DIR_def BACKUPS_DAILY_def BACKUPS_WEEKLY_def BACKUPS_MONTHLY_def
  old_archive_def new_archive_def recent_archive_def

lemmas glob_defs = get_backup_files_def glob_def glob_match_def glob2_def glob1_def iterdir_def
  scandir_def isdir_def ishidden_def fnmatch_tar_gz_def

lemmas time_defs = timedelta_def days_def hours_def minutes_def noon_def
  datetime_max_def

lemmas older_defs = is_older_than_delta_def datetime_now_def datetime_sub_def
  is_older_than_dt_def get_mtime_def

lemma suffix_iff_drop:
  "suffix xs ys = (length xs \<le> length ys \<and> drop (length ys - length xs) ys = xs)"
proof
  assume "suffix xs ys"
  then obtain zs where "ys = zs @ xs" by (auto simp: suffix_def)
  then show "length xs \<le> length ys \<and> drop (length ys - length xs) ys = xs" by simp
next
  assume a: "length xs \<le> length ys \<and> drop (length ys - length xs) ys = xs"
  have "ys = take (length ys - length xs) ys @ drop (length ys - length xs) ys" by simp
  with a have "ys = take (length ys - length xs) ys @ xs" by simp
  then show "suffix xs ys" by (metis suffixI)
qed

lemma timedelta_values:
  "timedelta 0 1 (- 30) = days 1 - minutes 30" "timedelta 1 0 (- 30) = days 7 - minutes 30"
  "timedelta 0 30 (- 30) = days 30 - minutes 30"
  "timedelta 0 4 0 = days 4" "timedelta 3 0 0 = days 21" "timedelta 0 60 0 = days 60"
  by (simp_all add: timedelta_def days_def minutes_def)

subsection \<open>What the scanner returns\<close>

lemma glob_in_keys:
  assumes "rel \<in> set (glob fsys root)"
  shows "root @ rel \<in> fst ` set fsys"
proof -
  from assms obtain p where p: "p \<in> fst ` set fsys" "prefix root p" "rel = drop (length root) p"
    by (auto simp: glob_def)
  from p(2) have "root @ drop (length root) p = p"
    by (auto simp: prefix_def)
  with p show ?thesis by simp
qed

lemma get_backup_files_in_keys:
  "b \<in> set (get_backup_files fsys root) \<Longrightarrow> path b \<in> fst ` set fsys"
  by (auto simp: get_backup_files_def dest: glob_in_keys)

lemma get_backup_files_stat:
  assumes "b \<in> set (get_backup_files fsys root)"
  shows "\<exists>m. last_modified_time fsys (path b) = Some m"
proof -
  from assms have "path b \<in> fst ` set fsys" by (rule get_backup_files_in_keys)
  then have "map_of fsys (path b) \<noteq> None" by (simp add: map_of_eq_None_iff)
  then show ?thesis by (auto simp: last_modified_time_def)
qed

lemma iterdir_dironly_subset: "set (iterdir fsys d True) \<subseteq> set (iterdir fsys d False)"
  by (auto simp: iterdir_def split: sum.splits)

lemma rlistdir_first: "rlistdir fsys d rel \<Longrightarrow> hd rel \<in> set (iterdir fsys d True)"
  by (induction fsys d rel rule: rlistdir.induct) auto

lemma glob_match_lists_root:
  assumes "glob_match fsys root rel"
  shows "iterdir fsys root False \<noteq> []"
proof (cases "butlast rel = []")
  case True
  with assms have "last rel \<in> set (iterdir fsys root False)"
    by (auto simp: glob_match_def glob1_def)
  then show ?thesis by auto
next
  case False
  with assms have "rlistdir fsys root (butlast rel)"
    by (auto simp: glob_match_def glob2_def)
  then have "hd (butlast rel) \<in> set (iterdir fsys root False)"
    using iterdir_dironly_subset rlistdir_first by blast
  then show ?thesis by auto
qed

lemma get_backup_files_nothing_listed:
  assumes "iterdir fsys root False = []"
  shows "get_backup_files fsys root = []"
proof -
  have "\<not> glob_match fsys root rel" for rel
    using assms glob_match_lists_root by blast
  then have "glob fsys root = []" by (simp add: glob_def)
  then show ?thesis by (simp add: get_backup_files_def)
qed

subsection \<open>The age test under a clock that stands still\<close>

lemma is_older_than_delta_frozen:
  assumes "clock w (trace w) = now" "\<bar>delta\<bar> \<le> now" "now \<le> datetime_max"
    and "last_modified_time (fs w) (path b) = Some m"
  shows "is_older_than_delta b delta w
         = (Inr (m < now - \<bar>delta\<bar>), emit (Stat (path b)) (emit (Now now) w))"
  using assms
  by (auto simp: older_defs last_modified_time_def split: option.splits)

lemma all_is_older_than_delta_frozen:
  assumes "\<forall>h. clock w h = now" "\<bar>delta\<bar> \<le> now" "now \<le> datetime_max"
    and "\<forall>b\<in>set bs. \<exists>m. last_modified_time (fs w) (path b) = Some m"
  shows "fst (all_is_older_than_delta delta bs w)
         = Inr (list_all (\<lambda>b. case last_modified_time (fs w) (path b) of
                                 None \<Rightarrow> False | Some m \<Rightarrow> m < now - \<bar>delta\<bar>) bs)"
  using assms
proof (induction bs arbitrary: w)
  case Nil
  then show ?case by simp
next
  case (Cons b bs)
  from Cons.prems(4) obtain m where m: "last_modified_time (fs w) (path b) = Some m" by auto
  let ?w' = "emit (Stat (path b)) (emit (Now now) w)"
  have step: "is_older_than_delta b delta w = (Inr (m < now - \<bar>delta\<bar>), ?w')"
    using Cons.prems(1-3) m by (intro is_older_than_delta_frozen) auto
  show ?case
  proof (cases "m < now - \<bar>delta\<bar>")
    case True
    have "fst (all_is_older_than_delta delta bs ?w')
          = Inr (list_all (\<lambda>b. case last_modified_time (fs ?w') (path b) of
                                  None \<Rightarrow> False | Some m \<Rightarrow> m < now - \<bar>delta\<bar>) bs)"
      using Cons.prems by (intro Cons.IH) auto
    with True m step show ?thesis by simp
  next
    case False
    with m step show ?thesis by auto
  qed
qed

lemma needs_backup_frozen:
  assumes "\<forall>h. clock w h = now" "0 \<le> age" "age \<le> now" "now \<le> datetime_max"
  shows "fst (all_is_older_than_delta age (get_backup_files (fs w) root) w)
         = Inr (every_record_older (fs w) root now age)"
proof -
  have stat: "\<forall>b\<in>set (get_backup_files (fs w) root). \<exists>m. last_modified_time (fs w) (path b) = Some m"
    by (blast dest: get_backup_files_stat)
  from assms(2,3) have le: "\<bar>age\<bar> \<le> now" by simp
  from assms(2) have a: "\<bar>age\<bar> = age" by simp
  show ?thesis
    using all_is_older_than_delta_frozen [OF assms(1) le assms(4) stat]
    unfolding a every_record_older_def .
qed

section \<open>When a backup is due\<close>

text \<open>
  Claim C1. For each of the three tiers, when the clock reads \<open>now\<close> throughout the
  evaluation, the tier's test returns true exactly if every archive found in the tier's
  directory was last modified before \<open>now\<close> minus the cadence less thirty minutes
  (one day, one week, thirty days). If the tier has no archive, the test returns true
  whatever the clock reads, and leaves the world as it was.
\<close>

theorem needs_backup_iff_every_record_older:
  "((\<forall>h. clock w h = now) \<and> days 30 \<le> now \<and> now \<le> datetime_max \<longrightarrow>
      fst (needs_daily_backup w)
        = Inr (every_record_older (fs w) BACKUPS_DAILY now (days 1 - minutes 30))
    \<and> fst (needs_weekly_backup w)
        = Inr (every_record_older (fs w) BACKUPS_WEEKLY now (days 7 - minutes 30))
    \<and> fst (needs_monthly_backup w)
        = Inr (every_record_older (fs w) BACKUPS_MONTHLY now (days 30 - minutes 30)))
   \<and> (get_backup_files (fs w) BACKUPS_DAILY = [] \<longrightarrow> needs_daily_backup w = (Inr True, w))
   \<and> (get_backup_files (fs w) BACKUPS_WEEKLY = [] \<longrightarrow> needs_weekly_backup w = (Inr True, w))
   \<and> (get_backup_files (fs w) BACKUPS_MONTHLY = [] \<longrightarrow> needs_monthly_backup w = (Inr True, w))"
proof -
  have timed: "fst (needs_daily_backup w)
        = Inr (every_record_older (fs w) BACKUPS_DAILY now (days 1 - minutes 30))
    \<and> fst (needs_weekly_backup w)
        = Inr (every_record_older (fs w) BACKUPS_WEEKLY now (days 7 - minutes 30))
    \<and> fst (needs_monthly_backup w)
        = Inr (every_record_older (fs w) BACKUPS_MONTHLY now (days 30 - minutes 30))"
    if frozen: "\<forall>h. clock w h = now" and lo: "days 30 \<le> now" and hi: "now \<le> datetime_max"
  proof -
    have ages: "0 \<le> days 1 - minutes 30" "days 1 - minutes 30 \<le> now"
      "0 \<le> days 7 - minutes 30" "days 7 - minutes 30 \<le> now"
      "0 \<le> days 30 - minutes 30" "days 30 - minutes 30 \<le> now"
      using lo by (simp_all add: days_def minutes_def)
    show ?thesis
      unfolding needs_daily_backup_def needs_weekly_backup_def needs_monthly_backup_def
        Let_def timedelta_values
      using needs_backup_frozen [OF frozen ages(1,2) hi]
        needs_backup_frozen [OF frozen ages(3,4) hi]
        needs_backup_frozen [OF frozen ages(5,6) hi]
      by simp
  qed
  have empty: "needs_daily_backup w = (Inr True, w)"
    if "get_backup_files (fs w) BACKUPS_DAILY = []"
    using that by (simp add: needs_daily_backup_def)
  have emptyw: "needs_weekly_backup w = (Inr True, w)"
    if "get_backup_files (fs w) BACKUPS_WEEKLY = []"
    using that by (simp add: needs_weekly_backup_def)
  have emptym: "needs_monthly_backup w = (Inr True, w)"
    if "get_backup_files (fs w) BACKUPS_MONTHLY = []"
    using that by (simp add: needs_monthly_backup_def)
  from timed empty emptyw emptym show ?thesis by blast
qed

lemma demo_records:
  "get_backup_files demo_fs BACKUPS_DAILY = [BackupFile old_archive, BackupFile new_archive]"
  "get_backup_files demo_fs BACKUPS_WEEKLY = []"
  "get_backup_files demo_fs BACKUPS_MONTHLY = []"
  by (simp_all add: demo_fs_def glob_defs path_defs suffix_iff_drop)

lemma demo_mtimes:
  "last_modified_time demo_fs old_archive = Some (noon - hours 120)"
  "last_modified_time demo_fs new_archive = Some (noon - hours 1)"
  by (simp_all add: demo_fs_def last_modified_time_def path_defs)

lemma demo_world_fields [simp]:
  "fs demo_world = demo_fs" "clock demo_world h = noon" "trace demo_world = []"
  "proc demo_world h cmd fsys = (Exited 0, fsys)"
  by (simp_all add: demo_world_def)

theorem needs_backup_iff_every_record_older_witness:
  "(\<forall>h. clock demo_world h = noon) \<and> days 30 \<le> noon \<and> noon \<le> datetime_max
   \<and> get_backup_files (fs demo_world) BACKUPS_WEEKLY = []
   \<and> get_backup_files (fs demo_world) BACKUPS_MONTHLY = []
   \<and> get_backup_files (fs (demo_world\<lparr>fs := empty_fs\<rparr>)) BACKUPS_DAILY = []
   \<and> fst (needs_daily_backup demo_world) = Inr False
   \<and> needs_weekly_backup demo_world = (Inr True, demo_world)
   \<and> needs_monthly_backup demo_world = (Inr True, demo_world)
   \<and> fst (needs_daily_backup (demo_world\<lparr>fs := empty_fs\<rparr>)) = Inr True"
proof -
  have h: "\<forall>h. clock demo_world h = noon" "days 30 \<le> noon" "noon \<le> datetime_max"
    by (simp_all add: time_defs)
  have e: "get_backup_files (fs demo_world) BACKUPS_WEEKLY = []"
    "get_backup_files (fs demo_world) BACKUPS_MONTHLY = []"
    "get_backup_files (fs (demo_world\<lparr>fs := empty_fs\<rparr>)) BACKUPS_DAILY = []"
    by (simp_all add: demo_records) (simp add: empty_fs_def glob_defs path_defs)
  have v: "every_record_older (fs demo_world) BACKUPS_DAILY noon (days 1 - minutes 30) = False"
    by (simp add: every_record_older_def demo_records demo_mtimes time_defs)
  from needs_backup_iff_every_record_older [of demo_world noon]
    needs_backup_iff_every_record_older [of "demo_world\<lparr>fs := empty_fs\<rparr>" noon]
  show ?thesis using h e v by simp
qed

lemma recent_world_fields [simp]:
  "fs recent_world = [(BACKUPS_DAILY, Dir (noon - hours 1) True),
                      (recent_archive, File (noon - (hours 23 + minutes 40)))]"
  "clock recent_world h = noon" "trace recent_world = []"
  by (simp_all add: recent_world_def demo_world_def)

lemma recent_records:
  "get_backup_files (fs recent_world) BACKUPS_DAILY = [BackupFile recent_archive]"
  by (simp add: glob_defs path_defs suffix_iff_drop)

lemma recent_mtime:
  "last_modified_time (fs recent_world) recent_archive = Some (noon - (hours 23 + minutes 40))"
  by (simp add: last_modified_time_def path_defs)

text \<open>
  Claim C5, as amended. A daily tier holds exactly one archive, last modified 23 hours
  40 minutes before \<open>now\<close>. The threshold is 23 hours 30 minutes, the archive is
  older than that, and the daily test returns true: a backup is due.
\<close>

theorem single_archive_23h40m_is_due:
  assumes "get_backup_files (fs w) BACKUPS_DAILY = [b]"
    and "last_modified_time (fs w) (path b) = Some (now - (hours 23 + minutes 40))"
    and "\<forall>h. clock w h = now" and "days 1 \<le> now" and "now \<le> datetime_max"
  shows "fst (needs_daily_backup w) = Inr True"
proof -
  have age: "0 \<le> days 1 - minutes 30" "days 1 - minutes 30 \<le> now"
    using assms(4) by (simp_all add: days_def minutes_def)
  have "every_record_older (fs w) BACKUPS_DAILY now (days 1 - minutes 30)"
    using assms(1,2) by (simp add: every_record_older_def days_def minutes_def hours_def)
  with needs_backup_frozen [OF assms(3) age assms(5), of BACKUPS_DAILY]
  show ?thesis by (simp add: needs_daily_backup_def timedelta_values)
qed

theorem single_archive_23h40m_is_due_witness:
  "get_backup_files (fs recent_world) BACKUPS_DAILY = [BackupFile recent_archive]
   \<and> last_modified_time (fs recent_world) (path (BackupFile recent_archive))
       = Some (noon - (hours 23 + minutes 40))
   \<and> (\<forall>h. clock recent_world h = noon) \<and> days 1 \<le> noon \<and> noon \<le> datetime_max
   \<and> fst (needs_daily_backup recent_world) = Inr True"
proof -
  have h1: "get_backup_files (fs recent_world) BACKUPS_DAILY = [BackupFile recent_archive]"
    by (rule recent_records)
  have h2: "last_modified_time (fs recent_world) (path (BackupFile recent_archive))
       = Some (noon - (hours 23 + minutes 40))"
    using recent_mtime by simp
  have h3: "\<forall>h. clock recent_world h = noon" by simp
  have h4: "days 1 \<le> noon" "noon \<le> datetime_max" by (simp_all add: time_defs)
  from single_archive_23h40m_is_due [OF h1 h2 h3 h4] h1 h2 h3 h4 show ?thesis by blast
qed

text \<open>
  Claim C5 as stated says that the test returns false here. In the world
  \<open>recent_world\<close>, whose daily tier holds one archive of 23 hours 40 minutes ago,
  it returns true.
\<close>

theorem single_archive_23h40m_counterexample:
  "get_backup_files (fs recent_world) BACKUPS_DAILY = [BackupFile recent_archive]
   \<and> last_modified_time (fs recent_world) recent_archive = Some (noon - (hours 23 + minutes 40))
   \<and> clock recent_world (trace recent_world) = noon
   \<and> fst (needs_daily_backup recent_world) = Inr True"
proof -
  have "all_is_older_than_delta (timedelta 0 1 (- 30)) [BackupFile recent_archive] recent_world
        = (Inr True, emit (Stat recent_archive) (emit (Now noon) recent_world))"
    by (simp add: older_defs path_defs time_defs)
  then have "fst (needs_daily_backup recent_world) = Inr True"
    by (simp only: needs_daily_backup_def Let_def recent_records fst_conv)
  moreover have "clock recent_world (trace recent_world) = noon" by simp
  ultimately show ?thesis using recent_records recent_mtime by blast
qed

section \<open>The age test\<close>

text \<open>
  Claim C8. For every record, every world (so every reading of the clock) and every
  duration, the test against the negated duration gives what the test against the
  duration gives: the same answer or the same error, and the same world afterwards.
\<close>

theorem is_older_than_delta_sign_insensitive:
  "is_older_than_delta b (- delta) w = is_older_than_delta b delta w"
  by (simp add: is_older_than_delta_def)

theorem is_older_than_delta_sign_insensitive_witness:
  "is_older_than_delta (BackupFile old_archive) (- days 4) demo_world
     = is_older_than_delta (BackupFile old_archive) (days 4) demo_world
   \<and> fst (is_older_than_delta (BackupFile old_archive) (days 4) demo_world) = Inr True"
proof -
  have "fst (is_older_than_delta (BackupFile old_archive) (days 4) demo_world) = Inr True"
    by (simp add: older_defs demo_fs_def path_defs time_defs)
  with is_older_than_delta_sign_insensitive [of "BackupFile old_archive" "days 4" demo_world]
  show ?thesis by simp
qed

section \<open>The scanner\<close>

text \<open>
  Claim C6, as amended. When the tier's directory exists and is empty, the scanner
  returns no record. When listing the directory fails (it does not exist, it is not a
  directory, it may not be listed), the scanner returns no record either: the error of
  the listing is caught inside glob and does not reach the caller.
\<close>

theorem scanner_returns_nothing_when_unlistable:
  assumes "scandir fsys root_dir = Inr [] \<or> scandir fsys root_dir = Inl e"
  shows "get_backup_files fsys root_dir = []"
proof -
  from assms have "iterdir fsys root_dir False = []"
    by (auto simp: iterdir_def)
  then show ?thesis by (rule get_backup_files_nothing_listed)
qed

theorem scanner_returns_nothing_when_unlistable_witness:
  "scandir empty_fs BACKUPS_DAILY = Inr []
   \<and> get_backup_files empty_fs BACKUPS_DAILY = []
   \<and> scandir missing_fs BACKUPS_DAILY = Inl FileNotFoundError
   \<and> get_backup_files missing_fs BACKUPS_DAILY = []
   \<and> scandir unreadable_fs BACKUPS_DAILY = Inl PermissionError
   \<and> get_backup_files unreadable_fs BACKUPS_DAILY = []"
proof -
  have h1: "scandir empty_fs BACKUPS_DAILY = Inr []"
    by (simp add: scandir_def empty_fs_def path_defs)
  have h2: "scandir missing_fs BACKUPS_DAILY = Inl FileNotFoundError"
    by (simp add: scandir_def missing_fs_def path_defs)
  have h3: "scandir unreadable_fs BACKUPS_DAILY = Inl PermissionError"
    by (simp add: scandir_def unreadable_fs_def path_defs)
  from scanner_returns_nothing_when_unlistable [of empty_fs BACKUPS_DAILY] h1
  have r1: "get_backup_files empty_fs BACKUPS_DAILY = []" by blast
  from scanner_returns_nothing_when_unlistable [of missing_fs BACKUPS_DAILY] h2
  have r2: "get_backup_files missing_fs BACKUPS_DAILY = []" by blast
  from scanner_returns_nothing_when_unlistable [of unreadable_fs BACKUPS_DAILY] h3
  have r3: "get_backup_files unreadable_fs BACKUPS_DAILY = []" by blast
  from h1 h2 h3 r1 r2 r3 show ?thesis by blast
qed

text \<open>
  Claim C6 as stated wants a fatal error for a directory that does not exist. In
  \<open>missing_fs\<close> the daily directory does not exist and listing it raises, yet the
  scanner returns the empty list, and the daily test built on it answers true.
\<close>

theorem scanner_missing_directory_counterexample:
  "map_of missing_fs BACKUPS_DAILY = None
   \<and> scandir missing_fs BACKUPS_DAILY = Inl FileNotFoundError
   \<and> get_backup_files missing_fs BACKUPS_DAILY = []
   \<and> fst (needs_daily_backup (demo_world\<lparr>fs := missing_fs\<rparr>)) = Inr True"
  by (simp add: missing_fs_def needs_daily_backup_def glob_defs path_defs)

section \<open>Creating an archive\<close>

lemma commands_run_append [simp]: "commands_run (xs @ ys) = commands_run xs @ commands_run ys"
  by (induction xs rule: commands_run.induct) auto

lemma events_since_append [simp]: "trace w' = trace w @ es \<Longrightarrow> events_since w w' = es"
  by (simp add: events_since_def)

lemma cmd_distinct [simp]:
  "tar_cmd p \<noteq> stop_cmd" "tar_cmd p \<noteq> start_cmd" "stop_cmd \<noteq> start_cmd"
  "stop_cmd \<noteq> tar_cmd p" "start_cmd \<noteq> tar_cmd p" "start_cmd \<noteq> stop_cmd"
  by (simp_all add: tar_cmd_def stop_cmd_def start_cmd_def)

text \<open>What one call of \<^verbatim>\<open>subprocess.run\<close> leaves in the trace.\<close>

lemma subprocess_run_trace:
  "trace (snd (subprocess_run cmd w)) = trace w @ [Run cmd (fst (proc w (trace w) cmd (fs w)))]"
  by (auto simp: subprocess_run_def Let_def split: prod.splits proc_result.splits)

lemma subprocess_run_result:
  "fst (subprocess_run cmd w)
   = (case fst (proc w (trace w) cmd (fs w)) of
        NoSuchProgram \<Rightarrow> Inl FileNotFoundError
      | Exited rc \<Rightarrow> if rc \<noteq> 0 then Inl (CalledProcessError rc cmd) else Inr ())"
  by (auto simp: subprocess_run_def Let_def split: prod.splits proc_result.splits)

lemma subprocess_run_ok:
  "fst (subprocess_run cmd w) = Inr u \<Longrightarrow> fst (proc w (trace w) cmd (fs w)) = Exited 0"
  by (auto simp: subprocess_run_result split: proc_result.splits if_splits)

lemma stop_minecraft_server_trace:
  "\<exists>r. trace (snd (stop_minecraft_server w))
        = trace w @ [LogInfo ''Stopping the Minecraft server.'', Run stop_cmd r]
      \<and> (fst (stop_minecraft_server w) = Inr () \<longrightarrow> r = Exited 0)"
  by (auto simp: stop_minecraft_server_def logging_info_def subprocess_run_trace
      dest: subprocess_run_ok)

text \<open>
  Claim C7. If stopping the server fails, \<^verbatim>\<open>create_backup\<close> ends with that error, in
  the world that the failed stop left behind, and the only command it has started is the
  stop command: \<^verbatim>\<open>tar\<close> was not started.
\<close>

theorem stop_failure_aborts_create_backup:
  assumes "fst (stop_minecraft_server w) = Inl e"
  shows "create_backup parent_dir w = (Inl e, snd (stop_minecraft_server w))
         \<and> commands_run (events_since w (snd (create_backup parent_dir w))) = [stop_cmd]
         \<and> tar_cmd p \<notin> set (commands_run (events_since w (snd (create_backup parent_dir w))))"
proof -
  obtain w1 where s: "stop_minecraft_server w = (Inl e, w1)"
    using assms by (cases "stop_minecraft_server w") auto
  then have c: "create_backup parent_dir w = (Inl e, w1)"
    by (simp add: create_backup_def)
  from stop_minecraft_server_trace [of w] s obtain r where
    "trace w1 = trace w @ [LogInfo ''Stopping the Minecraft server.'', Run stop_cmd r]"
    by auto
  then have "commands_run (events_since w w1) = [stop_cmd]" by simp
  with c s show ?thesis by simp
qed

lemma stop_fails_world_fields [simp]:
  "fs stop_fails_world = demo_fs" "trace stop_fails_world = []"
  "proc stop_fails_world h cmd fsys = (if cmd = stop_cmd then (Exited 1, fsys) else (Exited 0, fsys))"
  by (simp_all add: stop_fails_world_def demo_world_def)

theorem stop_failure_aborts_create_backup_witness:
  "fst (stop_minecraft_server stop_fails_world) = Inl (CalledProcessError 1 stop_cmd)
   \<and> fst (create_backup BACKUPS_DAILY stop_fails_world) = Inl (CalledProcessError 1 stop_cmd)
   \<and> commands_run (events_since stop_fails_world (snd (create_backup BACKUPS_DAILY stop_fails_world)))
       = [stop_cmd]"
proof -
  have h: "fst (stop_minecraft_server stop_fails_world) = Inl (CalledProcessError 1 stop_cmd)"
    by (simp add: stop_minecraft_server_def subprocess_run_result logging_info_def)
  from stop_failure_aborts_create_backup [OF h, of BACKUPS_DAILY]
  have "create_backup BACKUPS_DAILY stop_fails_world
          = (Inl (CalledProcessError 1 stop_cmd), snd (stop_minecraft_server stop_fails_world))"
    and c: "commands_run (events_since stop_fails_world
              (snd (create_backup BACKUPS_DAILY stop_fails_world))) = [stop_cmd]"
    by blast+
  then have "fst (create_backup BACKUPS_DAILY stop_fails_world)
               = Inl (CalledProcessError 1 stop_cmd)"
    by (simp only: fst_conv)
  with h c show ?thesis by blast
qed

lemma subprocess_run_cases:
  assumes "subprocess_run cmd w = (res, w')"
  obtains (ok) "res = Inr ()" "trace w' = trace w @ [Run cmd (Exited 0)]"
  | (failed) r where "r \<noteq> Exited 0"
      "res = Inl (case r of Exited rc \<Rightarrow> CalledProcessError rc cmd
                  | NoSuchProgram \<Rightarrow> FileNotFoundError)"
      "trace w' = trace w @ [Run cmd r]"
proof -
  obtain r fs' where p: "proc w (trace w) cmd (fs w) = (r, fs')" by fastforce
  show thesis
  proof (cases "r = Exited 0")
    case True
    with assms p have "res = Inr ()" "trace w' = trace w @ [Run cmd (Exited 0)]"
      by (auto simp: subprocess_run_def Let_def)
    then show thesis by (rule ok)
  next
    case False
    from assms p have "res = Inl (case r of Exited rc \<Rightarrow> CalledProcessError rc cmd
                  | NoSuchProgram \<Rightarrow> FileNotFoundError)" "trace w' = trace w @ [Run cmd r]"
      using False by (auto simp: subprocess_run_def Let_def split: proc_result.splits)
    with False show thesis by (rule failed)
  qed
qed

text \<open>The three ways in which \<^verbatim>\<open>create_backup\<close> can end.\<close>

lemma create_backup_cases:
  assumes "create_backup parent_dir w = (res, w')"
  obtains
    (stop_failed) e r where "res = Inl e" "r \<noteq> Exited 0"
      "events_since w w' = [LogInfo ''Stopping the Minecraft server.'', Run stop_cmd r]"
  | (tar_failed) r now bp where "r \<noteq> Exited 0"
      "bp = parent_dir @ [''backup-'' @ strftime_stamp now @ ''.tar.gz'']"
      "res = Inl (case r of Exited rc \<Rightarrow> CalledProcessError rc (tar_cmd bp)
                  | NoSuchProgram \<Rightarrow> FileNotFoundError)"
      "events_since w w' =
         [LogInfo ''Stopping the Minecraft server.'', Run stop_cmd (Exited 0), Now now,
          LogInfo ''Creating backup file: %s'', Run (tar_cmd bp) r]"
  | (tar_done) r now bp where
      "bp = parent_dir @ [''backup-'' @ strftime_stamp now @ ''.tar.gz'']"
      "events_since w w' =
         [LogInfo ''Stopping the Minecraft server.'', Run stop_cmd (Exited 0), Now now,
          LogInfo ''Creating backup file: %s'', Run (tar_cmd bp) (Exited 0),
          LogInfo ''Starting the Minecraft server.'', Run start_cmd r]"
      "(r = Exited 0 \<and> res = Inr (BackupFile bp)) \<or> (r \<noteq> Exited 0 \<and> (\<exists>e. res = Inl e))"
proof -
  let ?w0 = "logging_info ''Stopping the Minecraft server.'' w"
  obtain r1 w1 where s1: "subprocess_run stop_cmd ?w0 = (r1, w1)" by fastforce
  from s1 show thesis
  proof (cases rule: subprocess_run_cases)
    case (failed r)
    with s1 assms have "\<exists>e. res = Inl e" "w' = w1"
      by (auto simp: create_backup_def stop_minecraft_server_def)
    with failed show thesis
      by (elim exE, intro stop_failed [of _ r]) (auto simp: logging_info_def)
  next
    case ok
    define now where "now = clock w1 (trace w1)"
    define bp where "bp = parent_dir @ [''backup-'' @ strftime_stamp now @ ''.tar.gz'']"
    define w3 where "w3 = logging_info ''Creating backup file: %s'' (emit (Now now) w1)"
    have t3: "trace w3 = trace w @ [LogInfo ''Stopping the Minecraft server.'',
                Run stop_cmd (Exited 0), Now now, LogInfo ''Creating backup file: %s'']"
      using ok by (simp add: w3_def logging_info_def)
    obtain r4 w4 where s4: "subprocess_run (tar_cmd bp) w3 = (r4, w4)" by fastforce
    have unfold: "create_backup parent_dir w =
       (case r4 of
          Inl e \<Rightarrow> (Inl e, w4)
        | Inr u \<Rightarrow>
            (case start_minecraft_server w4 of
               (Inl e, w5) \<Rightarrow> (Inl e, w5)
             | (Inr u, w5) \<Rightarrow> (Inr (BackupFile bp), w5)))"
      using s1 ok(1) s4
      by (simp add: create_backup_def stop_minecraft_server_def get_new_backup_filename_def
          datetime_now_def Let_def now_def bp_def w3_def split: sum.splits prod.splits)
    from s4 show thesis
    proof (cases rule: subprocess_run_cases)
      case (failed r)
      with unfold assms have "res = Inl (case r of Exited rc \<Rightarrow> CalledProcessError rc (tar_cmd bp)
                  | NoSuchProgram \<Rightarrow> FileNotFoundError)" "w' = w4" by auto
      moreover from this failed t3 have "events_since w w' =
         [LogInfo ''Stopping the Minecraft server.'', Run stop_cmd (Exited 0), Now now,
          LogInfo ''Creating backup file: %s'', Run (tar_cmd bp) r]" by simp
      ultimately show thesis
        using failed(1) bp_def by (intro tar_failed [of r bp now]) 
    next
      case tar_ok: ok
      let ?w4' = "logging_info ''Starting the Minecraft server.'' w4"
      obtain r5 w5 where s5: "subprocess_run start_cmd ?w4' = (r5, w5)" by fastforce
      have t5: "trace w5 = trace w @
         [LogInfo ''Stopping the Minecraft server.'', Run stop_cmd (Exited 0), Now now,
          LogInfo ''Creating backup file: %s'', Run (tar_cmd bp) (Exited 0),
          LogInfo ''Starting the Minecraft server.'', Run start_cmd r]"
        if "trace w5 = trace ?w4' @ [Run start_cmd r]" for r
        using that tar_ok t3 by (simp add: logging_info_def)
      from s5 show thesis
      proof (cases rule: subprocess_run_cases)
        case (failed r)
        with unfold assms tar_ok s5 have "\<exists>e. res = Inl e" "w' = w5"
          by (auto simp: start_minecraft_server_def)
        moreover from this failed have "events_since w w' =
         [LogInfo ''Stopping the Minecraft server.'', Run stop_cmd (Exited 0), Now now,
          LogInfo ''Creating backup file: %s'', Run (tar_cmd bp) (Exited 0),
          LogInfo ''Starting the Minecraft server.'', Run start_cmd r]"
          using t5 [of r] by simp
        ultimately show thesis
          using failed(1) bp_def by (intro tar_done [of bp now r]) auto
      next
        case ok
        with unfold assms tar_ok s5 have "res = Inr (BackupFile bp)" "w' = w5"
          by (auto simp: start_minecraft_server_def)
        moreover from this ok have "events_since w w' =
         [LogInfo ''Stopping the Minecraft server.'', Run stop_cmd (Exited 0), Now now,
          LogInfo ''Creating backup file: %s'', Run (tar_cmd bp) (Exited 0),
          LogInfo ''Starting the Minecraft server.'', Run start_cmd (Exited 0)]"
          using t5 [of "Exited 0"] by simp
        ultimately show thesis
          using bp_def by (intro tar_done [of bp now "Exited 0"]) auto
      qed
    qed
  qed
qed

text \<open>
  Claim C3, as amended. If \<^verbatim>\<open>tar\<close> was started and did not exit with status 0,
  \<^verbatim>\<open>create_backup\<close> ends with the error of that call (CalledProcessError with the
  exit status), and the command that starts the server is not among the commands it
  started.
\<close>

theorem tar_failure_propagates_without_restart:
  assumes "create_backup parent_dir w = (res, w')"
    and "Run (tar_cmd p) r \<in> set (events_since w w')" and "r \<noteq> Exited 0"
  shows "res = Inl (case r of Exited rc \<Rightarrow> CalledProcessError rc (tar_cmd p)
                    | NoSuchProgram \<Rightarrow> FileNotFoundError)
         \<and> start_cmd \<notin> set (commands_run (events_since w w'))"
  using assms(1)
proof (cases rule: create_backup_cases)
  case (stop_failed e r')
  with assms(2) show ?thesis by simp
next
  case (tar_failed r' now bp)
  from assms(2) tar_failed(4) have "tar_cmd p = tar_cmd bp" "r = r'" by simp_all
  with tar_failed(3,4) show ?thesis by (cases r') simp_all
next
  case (tar_done r' now bp)
  from assms(2) tar_done(2) have "r = Exited 0" by simp
  with assms(3) show ?thesis by simp
qed

lemma strftime_stamp_noon: "strftime_stamp noon = ''20230101-120000''"
  by (simp add: strftime_stamp_def noon_def ord2ymd_def Let_def pad2_def pad4_def digit_def
      days_before_month_def days_in_month_def)

lemma tar_fails_world_fields [simp]:
  "fs tar_fails_world = demo_fs" "trace tar_fails_world = []" "clock tar_fails_world h = noon"
  "proc tar_fails_world h cmd fsys = (if hd cmd = ''tar'' then (Exited 2, fsys) else (Exited 0, fsys))"
  by (simp_all add: tar_fails_world_def demo_world_def)

lemma hd_cmd [simp]:
  "hd (tar_cmd p) = ''tar''" "hd stop_cmd = ''sudo''" "hd start_cmd = ''sudo''"
  by (simp_all add: tar_cmd_def stop_cmd_def start_cmd_def)

lemma create_backup_tar_fails:
  "fst (create_backup BACKUPS_DAILY tar_fails_world) =
     Inl (CalledProcessError 2 (tar_cmd (BACKUPS_DAILY @ [''backup-20230101-120000.tar.gz''])))"
  "trace (snd (create_backup BACKUPS_DAILY tar_fails_world)) =
        [LogInfo ''Stopping the Minecraft server.'', Run stop_cmd (Exited 0), Now noon,
         LogInfo ''Creating backup file: %s'',
         Run (tar_cmd (BACKUPS_DAILY @ [''backup-20230101-120000.tar.gz''])) (Exited 2)]"
  by (simp_all add: create_backup_def stop_minecraft_server_def get_new_backup_filename_def
      datetime_now_def logging_info_def subprocess_run_def emit_def strftime_stamp_noon Let_def)

theorem tar_failure_propagates_without_restart_witness:
  "Run (tar_cmd (BACKUPS_DAILY @ [''backup-20230101-120000.tar.gz''])) (Exited 2)
     \<in> set (events_since tar_fails_world (snd (create_backup BACKUPS_DAILY tar_fails_world)))
   \<and> Exited 2 \<noteq> Exited 0
   \<and> fst (create_backup BACKUPS_DAILY tar_fails_world)
       = Inl (CalledProcessError 2 (tar_cmd (BACKUPS_DAILY @ [''backup-20230101-120000.tar.gz''])))
   \<and> start_cmd \<notin> set (commands_run
        (events_since tar_fails_world (snd (create_backup BACKUPS_DAILY tar_fails_world))))"
proof -
  let ?p = "BACKUPS_DAILY @ [''backup-20230101-120000.tar.gz'']"
  have h1: "create_backup BACKUPS_DAILY tar_fails_world
            = (fst (create_backup BACKUPS_DAILY tar_fails_world),
               snd (create_backup BACKUPS_DAILY tar_fails_world))" by simp
  have h2: "Run (tar_cmd ?p) (Exited 2)
     \<in> set (events_since tar_fails_world (snd (create_backup BACKUPS_DAILY tar_fails_world)))"
    by (simp add: create_backup_tar_fails events_since_def)
  have h3: "Exited 2 \<noteq> Exited 0" by simp
  from tar_failure_propagates_without_restart [OF h1 h2 h3] h2 h3 show ?thesis by simp
qed

text \<open>
  Claim C3 as stated says that the server is started again after a failed \<^verbatim>\<open>tar\<close>.
  In \<open>tar_fails_world\<close>, where \<^verbatim>\<open>tar\<close> exits with status 2, the trace of
  \<^verbatim>\<open>create_backup\<close> ends with that call: the start command is not run.
\<close>

theorem tar_failure_restart_counterexample:
  "trace (snd (create_backup BACKUPS_DAILY tar_fails_world)) =
     [LogInfo ''Stopping the Minecraft server.'', Run stop_cmd (Exited 0), Now noon,
      LogInfo ''Creating backup file: %s'',
      Run (tar_cmd (BACKUPS_DAILY @ [''backup-20230101-120000.tar.gz''])) (Exited 2)]
   \<and> start_cmd \<notin> set (commands_run (trace (snd (create_backup BACKUPS_DAILY tar_fails_world))))"
  by (simp add: create_backup_tar_fails)

text \<open>
  Claim C4 is about a query of the server's game time that this \<^verbatim>\<open>create_backup\<close>
  does not make. At noon of 2023-01-01, with every external program succeeding, it
  starts exactly three commands (stop, \<^verbatim>\<open>tar\<close>, start), and the archive is named
  after the timestamp alone.
\<close>

theorem create_backup_makes_no_gametime_query:
  "fst (create_backup BACKUPS_DAILY demo_world)
     = Inr (BackupFile (BACKUPS_DAILY @ [''backup-20230101-120000.tar.gz'']))
   \<and> commands_run (trace (snd (create_backup BACKUPS_DAILY demo_world)))
     = [stop_cmd, tar_cmd (BACKUPS_DAILY @ [''backup-20230101-120000.tar.gz'']), start_cmd]
   \<and> fst (get_new_backup_filename demo_world) = ''backup-20230101-120000.tar.gz''"
  by (simp add: create_backup_def stop_minecraft_server_def start_minecraft_server_def
      get_new_backup_filename_def datetime_now_def logging_info_def subprocess_run_def
      emit_def strftime_stamp_noon Let_def)

section \<open>Deleting old archives\<close>

subsection \<open>The effect of each step\<close>

lemma map_of_filter_key:
  "map_of (filter (\<lambda>e. fst e \<noteq> p) xs) q = (if q = p then None else map_of xs q)"
  by (induction xs) auto

lemma is_older_than_delta_effect:
  assumes "is_older_than_delta b delta w = (res, w')"
  shows "fs w' = fs w" and "clock w' = clock w" and "proc w' = proc w"
    and "trace w' = trace w @ [Now (clock w (trace w))]
         \<or> trace w' = trace w @ [Now (clock w (trace w)), Stat (path b)]"
  using assms
  by (auto simp: older_defs Let_def split: option.splits sum.splits)

lemma is_older_than_delta_true:
  assumes "is_older_than_delta b delta w = (Inr True, w')"
  shows "\<exists>n. map_of (fs w) (path b) = Some n \<and> node_mtime n < clock w (trace w) - \<bar>delta\<bar>"
    and "trace w' = trace w @ [Now (clock w (trace w)), Stat (path b)]"
  using assms
  by (auto simp: older_defs Let_def split: option.splits sum.splits if_splits)

lemma unlink_effect:
  assumes "unlink p w = (res, w')"
  shows "trace w' = trace w @ [Unlink p]" and "clock w' = clock w" and "proc w' = proc w"
    and "(res = Inr () \<and> (\<exists>m. map_of (fs w) p = Some (File m))
            \<and> fs w' = filter (\<lambda>e. fst e \<noteq> p) (fs w))
         \<or> ((\<exists>e. res = Inl e) \<and> (\<forall>m. map_of (fs w) p \<noteq> Some (File m)) \<and> fs w' = fs w)"
  using assms
  by (auto simp: unlink_def Let_def split: option.splits node.splits)

text \<open>
  One turn of the loop on a record that is found older: the archive is stat'ed a second
  time, the message is logged, and the path is unlinked.
\<close>

lemma delete_loop_older_step:
  assumes "is_older_than_delta b delta w = (Inr True, w1)"
  obtains r3 w3 where
    "unlink (path b) (logging_info ''Deleting old backup %s (mtime %s is older than %s)''
        (emit (Stat (path b)) w1)) = (r3, w3)"
    "delete_loop delta (b # bs) w
       = (case r3 of Inl e \<Rightarrow> (Inl e, w3) | Inr u \<Rightarrow> delete_loop delta bs w3)"
    "trace w3 = trace w @ [Now (clock w (trace w)), Stat (path b), Stat (path b),
        LogInfo ''Deleting old backup %s (mtime %s is older than %s)'', Unlink (path b)]"
proof -
  from is_older_than_delta_true [OF assms] obtain n where
    n: "map_of (fs w) (path b) = Some n" and t1: "trace w1 = trace w @ [Now (clock w (trace w)), Stat (path b)]"
    by auto
  from is_older_than_delta_effect(1) [OF assms] n
  have g: "get_mtime b w1 = (Inr (node_mtime n), emit (Stat (path b)) w1)"
    by (simp add: get_mtime_def)
  let ?w2 = "logging_info ''Deleting old backup %s (mtime %s is older than %s)''
        (emit (Stat (path b)) w1)"
  obtain r3 w3 where u: "unlink (path b) ?w2 = (r3, w3)" by fastforce
  have "delete_loop delta (b # bs) w
       = (case r3 of Inl e \<Rightarrow> (Inl e, w3) | Inr u \<Rightarrow> delete_loop delta bs w3)"
    using assms g u by (simp split: sum.splits)
  moreover from unlink_effect(1) [OF u] t1
  have "trace w3 = trace w @ [Now (clock w (trace w)), Stat (path b), Stat (path b),
        LogInfo ''Deleting old backup %s (mtime %s is older than %s)'', Unlink (path b)]"
    by (simp add: logging_info_def)
  ultimately show thesis using u that by blast
qed

subsection \<open>What a pass leaves unchanged\<close>

lemma delete_loop_frame:
  assumes "delete_loop delta bs w = (res, w')" and "\<forall>h. clock w h = now"
  shows "map_of (fs w') q = map_of (fs w) q
         \<or> (q \<in> path ` set bs \<and> map_of (fs w') q = None
             \<and> (\<exists>m. map_of (fs w) q = Some (File m) \<and> m < now - \<bar>delta\<bar>))"
  using assms
proof (induction bs arbitrary: w)
  case Nil
  then show ?case by simp
next
  case (Cons b bs)
  obtain r1 w1 where s1: "is_older_than_delta b delta w = (r1, w1)" by fastforce
  note e1 = is_older_than_delta_effect [OF s1]
  show ?case
  proof (cases r1)
    case (Inl e)
    with s1 Cons.prems(1) have "w' = w1" by simp
    with e1(1) show ?thesis by simp
  next
    case (Inr older)
    show ?thesis
    proof (cases older)
      case False
      with Inr s1 Cons.prems(1) have "delete_loop delta bs w1 = (res, w')" by simp
      from Cons.IH [OF this] Cons.prems(2) e1(1,2) show ?thesis by auto
    next
      case True
      with Inr s1 have s1': "is_older_than_delta b delta w = (Inr True, w1)" by simp
      from is_older_than_delta_true(1) [OF s1'] Cons.prems(2) obtain n where
        n: "map_of (fs w) (path b) = Some n" "node_mtime n < now - \<bar>delta\<bar>" by auto
      from s1' obtain r3 w3 where
        u: "unlink (path b) (logging_info ''Deleting old backup %s (mtime %s is older than %s)''
              (emit (Stat (path b)) w1)) = (r3, w3)"
        and d: "delete_loop delta (b # bs) w
              = (case r3 of Inl e \<Rightarrow> (Inl e, w3) | Inr u \<Rightarrow> delete_loop delta bs w3)"
        by (rule delete_loop_older_step)
      note e3 = unlink_effect [OF u]
      have c3: "\<forall>h. clock w3 h = now"
        using e3(2) e1(2) Cons.prems(2) by (simp add: logging_info_def)
      show ?thesis
      proof (cases r3)
        case (Inl e)
        with d Cons.prems(1) have "w' = w3" by simp
        with e3(4) Inl e1(1) show ?thesis by (auto simp: logging_info_def)
      next
        case (Inr u')
        with d Cons.prems(1) have rest: "delete_loop delta bs w3 = (res, w')" by simp
        from e3(4) Inr e1(1) obtain m where
          m: "map_of (fs w) (path b) = Some (File m)"
          and f3: "fs w3 = filter (\<lambda>e. fst e \<noteq> path b) (fs w)"
          by (auto simp: logging_info_def)
        from m n have older: "m < now - \<bar>delta\<bar>" by simp
        have l3: "map_of (fs w3) q = (if q = path b then None else map_of (fs w) q)"
          by (simp add: f3 map_of_filter_key)
        from Cons.IH [OF rest c3]
        show ?thesis
        proof
          assume same: "map_of (fs w') q = map_of (fs w3) q"
          show ?thesis
          proof (cases "q = path b")
            case True
            with same l3 m older show ?thesis by auto
          next
            case False
            with same l3 show ?thesis by simp
          qed
        next
          assume "q \<in> path ` set bs \<and> map_of (fs w') q = None
             \<and> (\<exists>m. map_of (fs w3) q = Some (File m) \<and> m < now - \<bar>delta\<bar>)"
          with l3 show ?thesis by (auto split: if_splits)
        qed
      qed
    qed
  qed
qed

lemma get_backup_files_match:
  assumes "b \<in> set (get_backup_files fsys root)"
  shows "\<exists>rel. path b = root @ rel \<and> rel \<noteq> [] \<and> suffix ''.tar.gz'' (last (path b))
               \<and> \<not> ishidden (last (path b))"
proof -
  from assms obtain rel where r: "path b = root @ rel" "glob_match fsys root rel"
    by (auto simp: get_backup_files_def glob_def)
  then have "rel \<noteq> []" "last rel \<in> set (glob1 fsys (root @ butlast rel))"
    by (simp_all add: glob_match_def)
  with r(1) show ?thesis by (auto simp: glob1_def fnmatch_tar_gz_def)
qed

lemma delete_loop_unlinks:
  assumes "delete_loop delta bs w = (res, w')" and "\<forall>h. clock w h = now"
  shows "\<exists>es. trace w' = trace w @ es
           \<and> (\<forall>q. Unlink q \<in> set es \<longrightarrow>
                 q \<in> path ` set bs
                 \<and> (\<exists>n. map_of (fs w) q = Some n \<and> node_mtime n < now - \<bar>delta\<bar>))"
  using assms
proof (induction bs arbitrary: w)
  case Nil
  then show ?case by simp
next
  case (Cons b bs)
  obtain r1 w1 where s1: "is_older_than_delta b delta w = (r1, w1)" by fastforce
  note e1 = is_older_than_delta_effect [OF s1]
  show ?case
  proof (cases r1)
    case (Inl e)
    with s1 Cons.prems(1) have "w' = w1" by simp
    with e1(4) show ?thesis by auto
  next
    case (Inr older)
    show ?thesis
    proof (cases older)
      case False
      with Inr s1 Cons.prems(1) have "delete_loop delta bs w1 = (res, w')" by simp
      from Cons.IH [OF this] Cons.prems(2) e1(1,2) obtain es where
        es: "trace w' = trace w1 @ es"
        "\<forall>q. Unlink q \<in> set es \<longrightarrow> q \<in> path ` set bs
            \<and> (\<exists>n. map_of (fs w) q = Some n \<and> node_mtime n < now - \<bar>delta\<bar>)"
        by auto
      from e1(4) es show ?thesis by auto
    next
      case True
      with Inr s1 have s1': "is_older_than_delta b delta w = (Inr True, w1)" by simp
      from is_older_than_delta_true(1) [OF s1'] Cons.prems(2) obtain n where
        n: "map_of (fs w) (path b) = Some n" "node_mtime n < now - \<bar>delta\<bar>" by auto
      from s1' obtain r3 w3 where
        u: "unlink (path b) (logging_info ''Deleting old backup %s (mtime %s is older than %s)''
              (emit (Stat (path b)) w1)) = (r3, w3)"
        and d: "delete_loop delta (b # bs) w
              = (case r3 of Inl e \<Rightarrow> (Inl e, w3) | Inr u \<Rightarrow> delete_loop delta bs w3)"
        and t3: "trace w3 = trace w @ [Now (clock w (trace w)), Stat (path b), Stat (path b),
              LogInfo ''Deleting old backup %s (mtime %s is older than %s)'', Unlink (path b)]"
        by (rule delete_loop_older_step)
      note e3 = unlink_effect [OF u]
      have c3: "\<forall>h. clock w3 h = now"
        using e3(2) e1(2) Cons.prems(2) by (simp add: logging_info_def)
      show ?thesis
      proof (cases r3)
        case (Inl e)
        with d Cons.prems(1) have "w' = w3" by simp
        with t3 n show ?thesis by auto
      next
        case (Inr u')
        with d Cons.prems(1) have rest: "delete_loop delta bs w3 = (res, w')" by simp
        from e3(4) Inr e1(1) have f3: "fs w3 = filter (\<lambda>e. fst e \<noteq> path b) (fs w)"
          by (auto simp: logging_info_def)
        have l3: "map_of (fs w3) q = Some x \<Longrightarrow> map_of (fs w) q = Some x" for q x
          by (simp add: f3 map_of_filter_key split: if_splits)
        from Cons.IH [OF rest c3] obtain es where
          es: "trace w' = trace w3 @ es"
          "\<forall>q. Unlink q \<in> set es \<longrightarrow> q \<in> path ` set bs
              \<and> (\<exists>n. map_of (fs w3) q = Some n \<and> node_mtime n < now - \<bar>delta\<bar>)"
          by auto
        from es(2) l3 have "\<forall>q. Unlink q \<in> set es \<longrightarrow> q \<in> path ` set bs
              \<and> (\<exists>n. map_of (fs w) q = Some n \<and> node_mtime n < now - \<bar>delta\<bar>)"
          by blast
        with es(1) t3 n show ?thesis by auto
      qed
    qed
  qed
qed

lemma get_backup_files_distinct:
  assumes "distinct (map fst fsys)"
  shows "distinct (map path (get_backup_files fsys root))"
proof -
  let ?ps = "filter (\<lambda>p. prefix root p) (map fst fsys)"
  have inj: "inj_on (drop (length root)) (set ?ps)"
  proof (rule inj_onI)
    fix x y
    assume "x \<in> set ?ps" "y \<in> set ?ps" "drop (length root) x = drop (length root) y"
    then show "x = y" by (auto simp: prefix_def)
  qed
  from assms have "distinct ?ps" by simp
  with inj have "distinct (map (drop (length root)) ?ps)" by (simp add: distinct_map)
  then have "distinct (glob fsys root)" by (simp add: glob_def)
  then have "distinct (map (\<lambda>filename. root @ filename) (glob fsys root))"
    by (simp add: distinct_map inj_on_def)
  then show ?thesis by (simp add: get_backup_files_def comp_def)
qed

subsection \<open>A pass over regular files under a clock that stands still\<close>


subsection \<open>One tier's pass does not disturb another tier\<close>





















lemma demo_distinct: "distinct (map fst demo_fs)"
  by (simp add: demo_fs_def path_defs)

lemma demo_delete_daily:
  "fst (delete_backups_older_than_delta BACKUPS_DAILY (timedelta 0 4 0) demo_world) = Inr ()"
  "trace (snd (delete_backups_older_than_delta BACKUPS_DAILY (timedelta 0 4 0) demo_world))
     = [Now noon, Stat old_archive, Stat old_archive,
        LogInfo ''Deleting old backup %s (mtime %s is older than %s)'', Unlink old_archive,
        Now noon, Stat new_archive]"
  "fs (snd (delete_backups_older_than_delta BACKUPS_DAILY (timedelta 0 4 0) demo_world))
     = [(BACKUPS_DAILY, Dir (noon - hours 1) True),
        (new_archive, File (noon - hours 1)),
        (BACKUPS_DAILY @ [''notes.log''], File (noon - hours 240)),
        (BACKUPS_WEEKLY, Dir (noon - hours 240) True),
        (BACKUPS_MONTHLY, Dir (noon - hours 240) True)]"
proof -
  have older: "is_older_than_delta (BackupFile p) (timedelta 0 4 0) w
      = (case map_of (fs w) p of
           None \<Rightarrow> (Inl FileNotFoundError, emit (Stat p) (emit (Now noon) w))
         | Some n \<Rightarrow> (Inr (node_mtime n < noon - days 4), emit (Stat p) (emit (Now noon) w)))"
    if "clock w (trace w) = noon" for p w
    using that by (simp add: older_defs time_defs split: option.splits)
  have l: "map_of demo_fs old_archive = Some (File (noon - hours 120))"
    "map_of demo_fs new_archive = Some (File (noon - hours 1))"
    by (simp_all add: demo_fs_def path_defs)
  have f: "filter (\<lambda>e. fst e \<noteq> old_archive) demo_fs
     = [(BACKUPS_DAILY, Dir (noon - hours 1) True),
        (new_archive, File (noon - hours 1)),
        (BACKUPS_DAILY @ [''notes.log''], File (noon - hours 240)),
        (BACKUPS_WEEKLY, Dir (noon - hours 240) True),
        (BACKUPS_MONTHLY, Dir (noon - hours 240) True)]"
    by (simp add: demo_fs_def path_defs)
  have l2: "map_of (filter (\<lambda>e. fst e \<noteq> old_archive) demo_fs) new_archive
             = Some (File (noon - hours 1))"
    by (simp add: map_of_filter_key l) (simp add: path_defs)
  have cmp: "noon - hours 120 < noon - days 4" "\<not> noon - hours 1 < noon - days 4"
    by (simp_all add: time_defs)
  have run: "delete_loop (timedelta 0 4 0) [BackupFile old_archive, BackupFile new_archive] demo_world
    = (Inr (), \<lparr>fs = filter (\<lambda>e. fst e \<noteq> old_archive) demo_fs, clock = (\<lambda>h. noon),
         proc = (\<lambda>h cmd fsys. (Exited 0, fsys)),
         trace = [Now noon, Stat old_archive, Stat old_archive,
           LogInfo ''Deleting old backup %s (mtime %s is older than %s)'', Unlink old_archive,
           Now noon, Stat new_archive]\<rparr>)"
    by (simp add: older l l2 cmp get_mtime_def unlink_def logging_info_def emit_def demo_world_def)
  show "fst (delete_backups_older_than_delta BACKUPS_DAILY (timedelta 0 4 0) demo_world) = Inr ()"
    "trace (snd (delete_backups_older_than_delta BACKUPS_DAILY (timedelta 0 4 0) demo_world))
     = [Now noon, Stat old_archive, Stat old_archive,
        LogInfo ''Deleting old backup %s (mtime %s is older than %s)'', Unlink old_archive,
        Now noon, Stat new_archive]"
    "fs (snd (delete_backups_older_than_delta BACKUPS_DAILY (timedelta 0 4 0) demo_world))
     = [(BACKUPS_DAILY, Dir (noon - hours 1) True),
        (new_archive, File (noon - hours 1)),
        (BACKUPS_DAILY @ [''notes.log''], File (noon - hours 240)),
        (BACKUPS_WEEKLY, Dir (noon - hours 240) True),
        (BACKUPS_MONTHLY, Dir (noon - hours 240) True)]"
    by (simp_all only: delete_backups_older_than_delta_def demo_world_fields demo_records run f
        fst_conv snd_conv world.simps)
qed


lemma tiers_world_fields [simp]:
  "fs tiers_world = tiers_fs" "clock tiers_world h = noon" "trace tiers_world = []"
  by (simp_all add: tiers_world_def demo_world_def)








text \<open>
  Claim C10. Whatever a pass of \<^verbatim>\<open>delete_backups_older_than_delta\<close> ends with
  (also an error), under a clock that reads \<open>now\<close> throughout: a path that
  resolves differently afterwards was one of the archives the scanner found (so it lies
  below the tier's directory and its name ends in \<^verbatim>\<open>.tar.gz\<close>), was a regular
  file modified before \<open>now\<close> minus the duration, and is gone; and every path on
  which unlink was called was such an archive, found older. Every other path resolves
  as before.
\<close>

theorem deletion_pass_touches_only_old_archives:
  assumes "delete_backups_older_than_delta parent_dir delta w = (res, w')"
    and "\<forall>h. clock w h = now"
  shows "(map_of (fs w') q \<noteq> map_of (fs w) q \<longrightarrow>
            BackupFile q \<in> set (get_backup_files (fs w) parent_dir)
            \<and> strict_prefix parent_dir q \<and> suffix ''.tar.gz'' (last q)
            \<and> (\<exists>m. map_of (fs w) q = Some (File m) \<and> m < now - \<bar>delta\<bar>)
            \<and> map_of (fs w') q = None)
       \<and> (Unlink q \<in> set (events_since w w') \<longrightarrow>
            BackupFile q \<in> set (get_backup_files (fs w) parent_dir)
            \<and> strict_prefix parent_dir q \<and> suffix ''.tar.gz'' (last q)
            \<and> (\<exists>m. last_modified_time (fs w) q = Some m \<and> m < now - \<bar>delta\<bar>))"
proof -
  let ?bs = "get_backup_files (fs w) parent_dir"
  from assms(1) have loop: "delete_loop delta ?bs w = (res, w')"
    by (simp add: delete_backups_older_than_delta_def)
  have found: "BackupFile q \<in> set ?bs \<and> strict_prefix parent_dir q \<and> suffix ''.tar.gz'' (last q)"
    if "q \<in> path ` set ?bs"
  proof -
    from that obtain b where b: "b \<in> set ?bs" "q = path b" by auto
    from get_backup_files_match [OF b(1)] b(2) have "strict_prefix parent_dir q"
      "suffix ''.tar.gz'' (last q)" by (auto simp: strict_prefix_def)
    moreover from b have "BackupFile q \<in> set ?bs" by simp
    ultimately show ?thesis by simp
  qed
  from delete_loop_frame [OF loop assms(2), of q] found
  have changed: "map_of (fs w') q \<noteq> map_of (fs w) q \<longrightarrow>
            BackupFile q \<in> set ?bs
            \<and> strict_prefix parent_dir q \<and> suffix ''.tar.gz'' (last q)
            \<and> (\<exists>m. map_of (fs w) q = Some (File m) \<and> m < now - \<bar>delta\<bar>)
            \<and> map_of (fs w') q = None"
    by blast
  from delete_loop_unlinks [OF loop assms(2)] obtain es where
    es: "trace w' = trace w @ es"
    "\<forall>q. Unlink q \<in> set es \<longrightarrow> q \<in> path ` set ?bs
        \<and> (\<exists>n. map_of (fs w) q = Some n \<and> node_mtime n < now - \<bar>delta\<bar>)"
    by blast
  have unlinked: "Unlink q \<in> set (events_since w w') \<longrightarrow>
            BackupFile q \<in> set ?bs
            \<and> strict_prefix parent_dir q \<and> suffix ''.tar.gz'' (last q)
            \<and> (\<exists>m. last_modified_time (fs w) q = Some m \<and> m < now - \<bar>delta\<bar>)"
  proof
    assume "Unlink q \<in> set (events_since w w')"
    with es have "q \<in> path ` set ?bs"
      "\<exists>n. map_of (fs w) q = Some n \<and> node_mtime n < now - \<bar>delta\<bar>" by auto
    with found show "BackupFile q \<in> set ?bs
            \<and> strict_prefix parent_dir q \<and> suffix ''.tar.gz'' (last q)
            \<and> (\<exists>m. last_modified_time (fs w) q = Some m \<and> m < now - \<bar>delta\<bar>)"
      by (auto simp: last_modified_time_def)
  qed
  from changed unlinked show ?thesis by blast
qed

theorem deletion_pass_touches_only_old_archives_witness:
  "(\<forall>h. clock demo_world h = noon)
   \<and> fst (delete_backups_older_than_delta BACKUPS_DAILY (timedelta 0 4 0) demo_world) = Inr ()
   \<and> map_of (fs (snd (delete_backups_older_than_delta BACKUPS_DAILY (timedelta 0 4 0) demo_world)))
        old_archive \<noteq> map_of (fs demo_world) old_archive
   \<and> Unlink old_archive \<in> set (events_since demo_world
        (snd (delete_backups_older_than_delta BACKUPS_DAILY (timedelta 0 4 0) demo_world)))
   \<and> BackupFile old_archive \<in> set (get_backup_files (fs demo_world) BACKUPS_DAILY)
   \<and> strict_prefix BACKUPS_DAILY old_archive \<and> suffix ''.tar.gz'' (last old_archive)
   \<and> map_of (fs (snd (delete_backups_older_than_delta BACKUPS_DAILY (timedelta 0 4 0) demo_world)))
        old_archive = None
   \<and> map_of (fs (snd (delete_backups_older_than_delta BACKUPS_DAILY (timedelta 0 4 0) demo_world)))
        (BACKUPS_DAILY @ [''notes.log'']) = Some (File (noon - hours 240))"
proof -
  let ?run = "delete_backups_older_than_delta BACKUPS_DAILY (timedelta 0 4 0) demo_world"
  have h1: "?run = (fst ?run, snd ?run)" by simp
  have h2: "\<forall>h. clock demo_world h = noon" by simp
  have a1: "map_of (fs (snd ?run)) old_archive \<noteq> map_of (fs demo_world) old_archive"
    by (simp add: demo_delete_daily(3)) (simp add: demo_fs_def path_defs)
  have a2: "Unlink old_archive \<in> set (events_since demo_world (snd ?run))"
    by (simp add: events_since_def demo_delete_daily(2))
  have log: "map_of (fs (snd ?run)) (BACKUPS_DAILY @ [''notes.log'']) = Some (File (noon - hours 240))"
    by (simp add: demo_delete_daily(3)) (simp add: path_defs)
  from deletion_pass_touches_only_old_archives [OF h1 h2, of old_archive] a1 a2
  have "BackupFile old_archive \<in> set (get_backup_files (fs demo_world) BACKUPS_DAILY)
     \<and> strict_prefix BACKUPS_DAILY old_archive \<and> suffix ''.tar.gz'' (last old_archive)
     \<and> map_of (fs (snd ?run)) old_archive = None"
    by blast
  with h2 a1 a2 log demo_delete_daily(1) show ?thesis by blast
qed

subsection \<open>How often an archive is stat'ed\<close>

lemma stat_count_append [simp]: "stat_count (xs @ ys) p = stat_count xs p + stat_count ys p"
  by (simp add: stat_count_def)

lemma stat_count_simps [simp]:
  "stat_count [] p = 0"
  "stat_count (Stat q # es) p = (if q = p then 1 else 0) + stat_count es p"
  "stat_count (Now t # es) p = stat_count es p"
  "stat_count (Unlink q # es) p = stat_count es p"
  "stat_count (Run c r # es) p = stat_count es p"
  "stat_count (LogInfo s # es) p = stat_count es p"
  by (simp_all add: stat_count_def)

lemma count_list_distinct: "distinct xs \<Longrightarrow> count_list xs x \<le> 1"
  by (induction xs) auto

lemma all_is_older_than_delta_stats:
  assumes "all_is_older_than_delta max_age bs w = (res, w')"
  shows "\<exists>es. trace w' = trace w @ es \<and> stat_count es p \<le> count_list (map path bs) p"
  using assms
proof (induction bs arbitrary: w)
  case Nil
  then show ?case by simp
next
  case (Cons b bs)
  obtain r1 w1 where s1: "is_older_than_delta b max_age w = (r1, w1)" by fastforce
  from is_older_than_delta_effect(4) [OF s1] obtain es1 where
    es1: "trace w1 = trace w @ es1" "stat_count es1 p \<le> (if path b = p then 1 else 0)"
    by auto
  show ?case
  proof (cases "r1 = Inr True")
    case True
    with s1 Cons.prems have "all_is_older_than_delta max_age bs w1 = (res, w')" by simp
    from Cons.IH [OF this] obtain es where
      "trace w' = trace w1 @ es" "stat_count es p \<le> count_list (map path bs) p" by auto
    with es1 show ?thesis by (intro exI [of _ "es1 @ es"]) auto
  next
    case False
    with s1 Cons.prems have "w' = w1"
      by (cases r1) (auto split: bool.splits)
    with es1 show ?thesis by (intro exI [of _ es1]) auto
  qed
qed

lemma delete_loop_stats:
  assumes "delete_loop delta bs w = (res, w')"
  shows "\<exists>es. trace w' = trace w @ es
           \<and> stat_count es p \<le> 2 * count_list (map path bs) p
           \<and> stat_count es p \<le> count_list (map path bs) p + count_list es (Unlink p)"
  using assms
proof (induction bs arbitrary: w)
  case Nil
  then show ?case by simp
next
  case (Cons b bs)
  obtain r1 w1 where s1: "is_older_than_delta b delta w = (r1, w1)" by fastforce
  show ?case
  proof (cases "r1 = Inr True")
    case False
    from is_older_than_delta_effect(4) [OF s1] obtain es1 where
      es1: "trace w1 = trace w @ es1" "stat_count es1 p \<le> (if path b = p then 1 else 0)"
      by auto
    show ?thesis
    proof (cases "r1 = Inr False")
      case True
      with s1 Cons.prems have "delete_loop delta bs w1 = (res, w')" by simp
      from Cons.IH [OF this] obtain es where
        "trace w' = trace w1 @ es" "stat_count es p \<le> 2 * count_list (map path bs) p"
        "stat_count es p \<le> count_list (map path bs) p + count_list es (Unlink p)" by auto
      with es1 show ?thesis by (intro exI [of _ "es1 @ es"]) auto
    next
      case notFalse: False
      with False obtain e where "r1 = Inl e" by (cases r1) auto
      with s1 Cons.prems have "w' = w1" by simp
      with es1 show ?thesis by (intro exI [of _ es1]) auto
    qed
  next
    case True
    with s1 have s1': "is_older_than_delta b delta w = (Inr True, w1)" by simp
    from s1' obtain r3 w3 where
      u: "unlink (path b) (logging_info ''Deleting old backup %s (mtime %s is older than %s)''
            (emit (Stat (path b)) w1)) = (r3, w3)"
      and d: "delete_loop delta (b # bs) w
            = (case r3 of Inl e \<Rightarrow> (Inl e, w3) | Inr u \<Rightarrow> delete_loop delta bs w3)"
      and t3: "trace w3 = trace w @ [Now (clock w (trace w)), Stat (path b), Stat (path b),
            LogInfo ''Deleting old backup %s (mtime %s is older than %s)'', Unlink (path b)]"
      by (rule delete_loop_older_step)
    let ?step = "[Now (clock w (trace w)), Stat (path b), Stat (path b),
            LogInfo ''Deleting old backup %s (mtime %s is older than %s)'', Unlink (path b)]"
    have step: "stat_count ?step p = (if path b = p then 2 else 0)"
      "count_list ?step (Unlink p) = (if path b = p then 1 else 0)"
      by auto
    show ?thesis
    proof (cases r3)
      case (Inl e)
      with d Cons.prems have "w' = w3" by simp
      with t3 step show ?thesis by (intro exI [of _ ?step]) auto
    next
      case (Inr u)
      with d Cons.prems have "delete_loop delta bs w3 = (res, w')" by simp
      from Cons.IH [OF this] obtain es where
        es: "trace w' = trace w3 @ es" "stat_count es p \<le> 2 * count_list (map path bs) p"
        "stat_count es p \<le> count_list (map path bs) p + count_list es (Unlink p)" by auto
      have "trace w' = trace w @ (?step @ es)" using es(1) t3 by simp
      moreover have "stat_count (?step @ es) p \<le> 2 * count_list (map path (b # bs)) p"
        using es(2) step(1) by (simp only: stat_count_append) auto
      moreover have "stat_count (?step @ es) p
          \<le> count_list (map path (b # bs)) p + count_list (?step @ es) (Unlink p)"
        using es(3) step by (simp only: stat_count_append count_list_append) auto
      ultimately show ?thesis by blast
    qed
  qed
qed

text \<open>
  Claim C9, as amended. Paths name one entry each. The age test stats its archive at
  most once, so within one evaluation of a tier's test every archive is stat'ed at most
  once. Within one deletion pass an archive is stat'ed at most twice: once by the age
  test that decides, and a second time, for the log message, only when the test found
  it older and the pass goes on to unlink it.
\<close>

theorem metadata_reads_per_record:
  assumes "distinct (map fst (fs w))"
  shows "stat_count (events_since w (snd (is_older_than_delta b delta w))) p \<le> 1
       \<and> stat_count (events_since w (snd (needs_daily_backup w))) p \<le> 1
       \<and> stat_count (events_since w (snd (needs_weekly_backup w))) p \<le> 1
       \<and> stat_count (events_since w (snd (needs_monthly_backup w))) p \<le> 1
       \<and> stat_count (events_since w (snd (delete_backups_older_than_delta parent_dir delta w))) p \<le> 2
       \<and> (stat_count (events_since w (snd (delete_backups_older_than_delta parent_dir delta w))) p = 2
            \<longrightarrow> Unlink p \<in> set (events_since w (snd (delete_backups_older_than_delta parent_dir delta w))))"
proof -
  have once: "count_list (map path (get_backup_files (fs w) root)) p \<le> 1" for root
    using assms by (intro count_list_distinct get_backup_files_distinct)
  have test: "stat_count (events_since w (snd (is_older_than_delta b delta w))) p \<le> 1"
  proof -
    obtain r1 w1 where s1: "is_older_than_delta b delta w = (r1, w1)" by fastforce
    from is_older_than_delta_effect(4) [OF s1] show ?thesis
      by (auto simp: s1)
  qed
  have needs: "stat_count (events_since w
      (snd (all_is_older_than_delta max_age (get_backup_files (fs w) root) w))) p \<le> 1"
    for max_age root
  proof -
    obtain r w' where s: "all_is_older_than_delta max_age (get_backup_files (fs w) root) w = (r, w')"
      by fastforce
    from all_is_older_than_delta_stats [OF s, of p] once [of root] show ?thesis
      by (auto simp: s)
  qed
  obtain r w' where s: "delete_backups_older_than_delta parent_dir delta w = (r, w')"
    by fastforce
  then have "delete_loop delta (get_backup_files (fs w) parent_dir) w = (r, w')"
    by (simp add: delete_backups_older_than_delta_def)
  from delete_loop_stats [OF this, of p] obtain es where
    es: "trace w' = trace w @ es"
    "stat_count es p \<le> 2 * count_list (map path (get_backup_files (fs w) parent_dir)) p"
    "stat_count es p \<le> count_list (map path (get_backup_files (fs w) parent_dir)) p
        + count_list es (Unlink p)"
    by blast
  from es(2) once [of parent_dir] have two: "stat_count es p \<le> 2" by simp
  have sel: "Unlink p \<in> set es" if "stat_count es p = 2"
  proof -
    from that es(3) once [of parent_dir] have "count_list es (Unlink p) \<noteq> 0" by simp
    then show ?thesis by (simp add: count_list_0_iff)
  qed
  from es(1) have ev: "events_since w (snd (delete_backups_older_than_delta parent_dir delta w)) = es"
    by (simp add: s)
  from test needs two sel show ?thesis
    unfolding ev needs_daily_backup_def needs_weekly_backup_def needs_monthly_backup_def Let_def
    by blast
qed

theorem metadata_reads_per_record_witness:
  "distinct (map fst (fs demo_world))
   \<and> stat_count (events_since demo_world (snd (needs_daily_backup demo_world))) old_archive \<le> 1
   \<and> stat_count (events_since demo_world
        (snd (delete_backups_older_than_delta BACKUPS_DAILY (timedelta 0 4 0) demo_world)))
        old_archive = 2
   \<and> Unlink old_archive \<in> set (events_since demo_world
        (snd (delete_backups_older_than_delta BACKUPS_DAILY (timedelta 0 4 0) demo_world)))"
proof -
  have h: "distinct (map fst (fs demo_world))" by (simp add: demo_distinct)
  have two: "stat_count (events_since demo_world
        (snd (delete_backups_older_than_delta BACKUPS_DAILY (timedelta 0 4 0) demo_world)))
        old_archive = 2"
    by (simp add: events_since_def demo_delete_daily(2)) (simp add: path_defs)
  from metadata_reads_per_record [OF h, of "BackupFile old_archive" "timedelta 0 4 0"
      old_archive BACKUPS_DAILY] h two
  show ?thesis by blast
qed

text \<open>
  Claim C9 as stated allows one read of an archive's metadata per deletion decision. In
  \<open>demo_world\<close> the daily pass stats the five days old archive twice before it
  unlinks it.
\<close>

theorem metadata_read_twice_counterexample:
  "trace (snd (delete_backups_older_than_delta BACKUPS_DAILY (timedelta 0 4 0) demo_world))
     = [Now noon, Stat old_archive, Stat old_archive,
        LogInfo ''Deleting old backup %s (mtime %s is older than %s)'', Unlink old_archive,
        Now noon, Stat new_archive]
   \<and> stat_count (trace (snd (delete_backups_older_than_delta BACKUPS_DAILY (timedelta 0 4 0)
        demo_world))) old_archive = 2"
  by (simp add: demo_delete_daily(2)) (simp add: path_defs)

end
